theory Spec2Isabelle
  imports Main "HOL-Library.AList"
begin

section \<open>Content addresses, gateways and errors\<close>

text \<open>
  A shallow embedding of the monitor of the source repository:
  \<^verbatim>\<open>src/monitor/source-fetcher.ts\<close> (the class \<^verbatim>\<open>SourceFetcher\<close>), the
  second revision of that class that the sources hold (no \<^verbatim>\<open>beingProcessed\<close>
  flag, no counters; its definitions carry the suffix \<open>_rev\<close>), and
  \<^verbatim>\<open>src/monitor/monitor.ts\<close> (the class \<^verbatim>\<open>ChainMonitor\<close>).

  JavaScript objects used as dictionaries keep their string keys in insertion order
  (\<^verbatim>\<open>Object.keys\<close>), so the subscription map is an association list; the
  timestamp map is only ever read by key and is a partial function. A
  \<^verbatim>\<open>Subscription\<close> is a mutable object that closures capture by reference, so
  subscriptions live in a store addressed by references.

  Callbacks are opaque values; calling one is recorded as an event, and the call
  either returns or throws. What a callback does to the fetcher it can only do through
  \<^verbatim>\<open>subscribe\<close>, which appears as a step of its own: \<^verbatim>\<open>notifySubscribers\<close>
  iterates over the subscriber array of an object that it has already removed from
  the map, and \<^verbatim>\<open>subscribe\<close> never writes to such an object.
\<close>

type_synonym hash = string
type_synonym ref = nat
type_synonym time = int

datatype error = Error string | TypeError string

record SourceAddress =
  origin :: string
  fileId :: string

text \<open>
  Modelled from the spec: \<^verbatim>\<open>SourceAddress.getUniqueIdentifier\<close> (util.ts is
  not among the sources). The spec: a unique identifier is \<open>origin || ":" || id\<close>.
\<close>

definition getUniqueIdentifier :: "SourceAddress \<Rightarrow> hash" where
  "getUniqueIdentifier sa = origin sa @ '':'' @ fileId sa"

text \<open>The interface \<^verbatim>\<open>IGateway\<close>, as the fetcher uses it: two operations.\<close>

record IGateway =
  worksWith :: "string \<Rightarrow> bool"
  createUrl :: "string \<Rightarrow> string"

text \<open>
  Modelled from the spec: \<^verbatim>\<open>SimpleGateway\<close> (gateway.ts is not among the
  sources). The spec: a SimpleGateway is parameterized by a set of accepted origins and
  a URL prefix; \<^verbatim>\<open>createUrl\<close> is string concatenation.
\<close>

definition SimpleGateway :: "string list \<Rightarrow> string \<Rightarrow> IGateway" where
  "SimpleGateway origins baseUrl =
     \<lparr>worksWith = (\<lambda>origin. origin \<in> set origins), createUrl = (\<lambda>i. baseUrl @ i)\<rparr>"

text \<open>
  \<^verbatim>\<open>findGateway\<close>: the first gateway that works with the origin, else
  \<^verbatim>\<open>throw new Error(`Gateway not found for ${sourceAddress.origin}`)\<close>.
\<close>

fun findGateway :: "IGateway list \<Rightarrow> SourceAddress \<Rightarrow> error + IGateway" where
  "findGateway [] sourceAddress = Inl (Error (''Gateway not found for '' @ origin sourceAddress))"
| "findGateway (gateway # rest) sourceAddress =
     (if worksWith gateway (origin sourceAddress) then Inr gateway
      else findGateway rest sourceAddress)"

section \<open>SourceFetcher (src/monitor/source-fetcher.ts)\<close>

record 'cb Subscription =
  sourceAddress :: SourceAddress
  fetchUrl :: string
  beingProcessed :: bool
  subscribers :: "'cb list"

text \<open>
  What the fetcher does to the outside: a logger line (by its \<^verbatim>\<open>loc\<close> tag), or a
  subscriber callback called with the fetched file. \<open>Invoke r cb file\<close> is the call
  \<^verbatim>\<open>callback(file)\<close> for the entry \<open>cb\<close> of the subscriber array of the
  subscription object \<open>r\<close>.
\<close>

datatype 'cb event =
    Invoke ref 'cb string
  | Log string
  | Uncaught error

record 'cb SourceFetcher =
  subscriptions :: "(hash \<times> ref) list"
  timestamps :: "hash \<rightharpoonup> time"
  store :: "ref \<Rightarrow> 'cb Subscription"
  nextRef :: ref
  fileCounter :: int
  subscriptionCounter :: int
  fetchTimeout :: int
  fetchPause :: int
  cleanupTime :: int
  gateways :: "IGateway list"

definition STARTING_INDEX :: nat where
  "STARTING_INDEX = 0"

definition NO_PAUSE :: int where
  "NO_PAUSE = 0"

definition newSubscription :: "SourceAddress \<Rightarrow> string \<Rightarrow> 'cb Subscription" where
  "newSubscription sa url =
     \<lparr>sourceAddress = sa, fetchUrl = url, beingProcessed = False, subscribers = []\<rparr>"

text \<open>
  \<^verbatim>\<open>cleanup\<close>. The timestamp is deleted first; reading \<^verbatim>\<open>.subscribers\<close> of
  a missing subscription is a TypeError, raised after that deletion.
  \<^verbatim>\<open>Object.keys\<close> of the (dense, push-only) subscriber array has the array's
  length. The result is the new state, the events, and the exception if one was thrown.
\<close>

definition cleanup ::
  "hash \<Rightarrow> 'cb SourceFetcher \<Rightarrow> 'cb SourceFetcher \<times> 'cb event list \<times> error option" where
  "cleanup sourceHash s =
     (let s1 = s\<lparr>timestamps := (timestamps s)(sourceHash := None)\<rparr> in
      case map_of (subscriptions s1) sourceHash of
        None \<Rightarrow> (s1, [], Some (TypeError ''Cannot read property subscribers of undefined''))
      | Some r \<Rightarrow>
          (let subscriptionsDelta = int (length (subscribers (store s1 r))) in
           (s1\<lparr>subscriptions := AList.delete sourceHash (subscriptions s1),
               fileCounter := fileCounter s1 - 1,
               subscriptionCounter := subscriptionCounter s1 - subscriptionsDelta\<rparr>,
            [Log ''[SOURCE_FETCHER:CLEANUP]''], None)))"

text \<open>
  \<^verbatim>\<open>shouldCleanup\<close>: \<^verbatim>\<open>timestamp && (timestamp.getTime() + cleanupTime < Date.now())\<close>;
  a missing timestamp is falsy. \<open>now\<close> is \<^verbatim>\<open>Date.now()\<close>.
\<close>

definition shouldCleanup :: "hash \<Rightarrow> time \<Rightarrow> 'cb SourceFetcher \<Rightarrow> bool" where
  "shouldCleanup sourceHash now s =
     (case timestamps s sourceHash of
        None \<Rightarrow> False
      | Some timestamp \<Rightarrow> timestamp + cleanupTime s < now)"

text \<open>
  \<^verbatim>\<open>subscribers.forEach(callback => callback(file))\<close>, for the subscriber array of
  the subscription object \<open>r\<close>. \<open>outcome callback file\<close> is what the call
  \<^verbatim>\<open>callback(file)\<close> does: it returns (\<open>None\<close>) or throws. There is no
  \<^verbatim>\<open>try\<close> around the call, so the first callback that throws ends the loop and
  its exception leaves \<^verbatim>\<open>forEach\<close>: the callbacks after it are not called.
\<close>

fun forEach ::
  "('cb \<Rightarrow> string \<Rightarrow> error option) \<Rightarrow> ref \<Rightarrow> string \<Rightarrow> 'cb list
     \<Rightarrow> 'cb event list \<times> error option" where
  "forEach outcome r file [] = ([], None)"
| "forEach outcome r file (callback # rest) =
     (case outcome callback file of
        Some e \<Rightarrow> ([Invoke r callback file], Some e)
      | None \<Rightarrow>
          (case forEach outcome r file rest of
             (evs, e) \<Rightarrow> (Invoke r callback file # evs, e)))"

text \<open>
  The callbacks of an array that such a loop calls: all up to and including the first
  one that throws.
\<close>

fun called :: "('cb \<Rightarrow> string \<Rightarrow> error option) \<Rightarrow> string \<Rightarrow> 'cb list \<Rightarrow> 'cb list" where
  "called outcome file [] = []"
| "called outcome file (callback # rest) =
     (case outcome callback file of
        Some e \<Rightarrow> [callback]
      | None \<Rightarrow> callback # called outcome file rest)"

text \<open>
  \<^verbatim>\<open>notifySubscribers\<close>: nothing when the id is not subscribed; otherwise the
  subscription object is taken, \<^verbatim>\<open>cleanup\<close> runs, and then the subscribers of the
  taken object are called with the file, in array order, until one throws.
\<close>

definition notifySubscribers ::
  "('cb \<Rightarrow> string \<Rightarrow> error option) \<Rightarrow> hash \<Rightarrow> string \<Rightarrow> 'cb SourceFetcher
     \<Rightarrow> 'cb SourceFetcher \<times> 'cb event list \<times> error option" where
  "notifySubscribers outcome i file s =
     (case map_of (subscriptions s) i of
        None \<Rightarrow> (s, [], None)
      | Some subscription \<Rightarrow>
          (case cleanup i s of
             (s', evs, Some e) \<Rightarrow> (s', evs, Some e)
           | (s', evs, None) \<Rightarrow>
               (case forEach outcome subscription file (subscribers (store s' subscription)) of
                  (calls, e) \<Rightarrow> (s', evs @ [Log ''[SOURCE_FETCHER:NOTIFY]''] @ calls, e))))"

text \<open>
  \<^verbatim>\<open>subscribe\<close>. \<open>now\<close> is \<^verbatim>\<open>new Date()\<close>. \<^verbatim>\<open>findGateway\<close> may throw, before
  anything is written. A new \<^verbatim>\<open>Subscription\<close> object is allocated at the next
  free reference.
\<close>

definition subscribe ::
  "SourceAddress \<Rightarrow> 'cb \<Rightarrow> time \<Rightarrow> 'cb SourceFetcher
     \<Rightarrow> 'cb SourceFetcher \<times> 'cb event list \<times> error option" where
  "subscribe sa callback now s =
     (let sourceHash = getUniqueIdentifier sa in
      case findGateway (gateways s) sa of
        Inl e \<Rightarrow> (s, [], Some e)
      | Inr gateway \<Rightarrow>
          (let url = createUrl gateway (fileId sa);
               (r, s1) =
                 (case map_of (subscriptions s) sourceHash of
                    Some r \<Rightarrow> (r, s)
                  | None \<Rightarrow>
                      (nextRef s,
                       s\<lparr>subscriptions := subscriptions s @ [(sourceHash, nextRef s)],
                         store := (store s)(nextRef s := newSubscription sa url),
                         nextRef := Suc (nextRef s),
                         fileCounter := fileCounter s + 1\<rparr>));
               s2 = s1\<lparr>timestamps := (timestamps s1)(sourceHash \<mapsto> now)\<rparr>;
               s3 = s2\<lparr>store := (store s2)
                      (r := (store s2 r)\<lparr>subscribers := subscribers (store s2 r) @ [callback]\<rparr>)\<rparr>;
               s4 = s3\<lparr>subscriptionCounter := subscriptionCounter s3 + 1\<rparr>
           in (s4, [Log ''[SOURCE_FETCHER:NEW_SUBSCRIPTION]''], None)))"

text \<open>
  What one call of \<^verbatim>\<open>fetch(sourceHashes, index)\<close> leaves behind: the state, the
  events, the timer it set (\<^verbatim>\<open>setTimeout(this.fetch, delay, hashes, index)\<close>), the
  request it dispatched (\<^verbatim>\<open>nodeFetch(fetchUrl)\<close>, with the \<^verbatim>\<open>sourceHash\<close> and
  the \<^verbatim>\<open>subscription\<close> object its handlers captured), and the exception if one
  was thrown.
\<close>

record 'cb fetched =
  state :: "'cb SourceFetcher"
  events :: "'cb event list"
  timer :: "(int \<times> hash list \<times> nat) option"
  request :: "(string \<times> hash \<times> ref) option"
  threw :: "error option"

definition fetch :: "hash list \<Rightarrow> nat \<Rightarrow> time \<Rightarrow> 'cb SourceFetcher \<Rightarrow> 'cb fetched" where
  "fetch sourceHashes index now s =
     (if index \<ge> length sourceHashes then
        \<lparr>state = s, events = [],
         timer = Some (NO_PAUSE, map fst (subscriptions s), STARTING_INDEX),
         request = None, threw = None\<rparr>
      else
        (let sourceHash = sourceHashes ! index;
             nextFast = \<lparr>state = s, events = [],
                         timer = Some (NO_PAUSE, sourceHashes, index + 1),
                         request = None, threw = None\<rparr>
         in case map_of (subscriptions s) sourceHash of
              None \<Rightarrow> nextFast
            | Some subscription \<Rightarrow>
                if beingProcessed (store s subscription) then nextFast
                else if shouldCleanup sourceHash now s then
                  (case cleanup sourceHash s of
                     (s', evs, None) \<Rightarrow>
                       \<lparr>state = s', events = evs,
                        timer = Some (NO_PAUSE, sourceHashes, index + 1),
                        request = None, threw = None\<rparr>
                   | (s', evs, Some e) \<Rightarrow>
                       \<lparr>state = s', events = evs, timer = None, request = None,
                        threw = Some e\<rparr>)
                else
                  \<lparr>state = s\<lparr>store := (store s)
                             (subscription := (store s subscription)\<lparr>beingProcessed := True\<rparr>)\<rparr>,
                   events = [],
                   timer = Some (fetchPause s, sourceHashes, index + 1),
                   request = Some (fetchUrl (store s subscription), sourceHash, subscription),
                   threw = None\<rparr>))"

section \<open>The event loop around SourceFetcher\<close>

text \<open>
  The promise chain of \<^verbatim>\<open>fetch\<close> is
  \<^verbatim>\<open>nodeFetch(url).then(resp => { resp.text().then(text => ...) }).catch(log).finally(clear)\<close>.
  The inner promise \<^verbatim>\<open>resp.text().then(...)\<close> is not returned from the outer
  \<^verbatim>\<open>then\<close> callback, so the outer chain settles as soon as the response (status
  and headers) is there: \<^verbatim>\<open>finally\<close> clears \<^verbatim>\<open>beingProcessed\<close> of the captured
  subscription object at that point, and the body is read afterwards. A request
  therefore has two stages; a rejection of \<^verbatim>\<open>nodeFetch\<close> (transport error or
  timeout) is logged by \<^verbatim>\<open>catch\<close> and then \<^verbatim>\<open>finally\<close> runs; a rejection of
  \<^verbatim>\<open>resp.text()\<close> is handled by nobody.
\<close>

datatype stage = AwaitingResponse | ReadingBody int | Settled

record pending =
  reqUrl :: string
  reqHash :: hash
  reqSubscription :: ref
  reqStage :: stage

record 'cb runtime =
  fetcher :: "'cb SourceFetcher"
  pendingTimer :: "(int \<times> hash list \<times> nat) option"
  requests :: "pending list"
  trace :: "'cb event list"

text \<open>
  What can happen next: the pending timer fires (at clock reading \<open>now\<close>), somebody
  calls \<^verbatim>\<open>subscribe\<close>, request number \<open>n\<close> gets its response with an HTTP status,
  request \<open>n\<close> fails, the body of request \<open>n\<close> has been read, or reading it failed.
  With the body comes what each callback would do if it were called with it now
  (return or throw).
\<close>

datatype 'cb input =
    TimerFires time
  | Subscribe SourceAddress 'cb time
  | Response nat int
  | Failure nat string
  | BodyRead nat string "'cb \<Rightarrow> string \<Rightarrow> error option"
  | BodyFailed nat string

definition OK :: int where
  "OK = 200"

definition clearBeingProcessed :: "ref \<Rightarrow> 'cb SourceFetcher \<Rightarrow> 'cb SourceFetcher" where
  "clearBeingProcessed r s =
     s\<lparr>store := (store s)(r := (store s r)\<lparr>beingProcessed := False\<rparr>)\<rparr>"

definition uncaught :: "error option \<Rightarrow> 'cb event list" where
  "uncaught e = (case e of None \<Rightarrow> [] | Some x \<Rightarrow> [Uncaught x])"

definition dispatched :: "(string \<times> hash \<times> ref) option \<Rightarrow> pending list" where
  "dispatched q =
     (case q of
        None \<Rightarrow> []
      | Some (url, h, r) \<Rightarrow>
          [\<lparr>reqUrl = url, reqHash = h, reqSubscription = r, reqStage = AwaitingResponse\<rparr>])"

definition setStage :: "nat \<Rightarrow> stage \<Rightarrow> pending list \<Rightarrow> pending list" where
  "setStage n st qs = qs[n := (qs ! n)\<lparr>reqStage := st\<rparr>]"

definition stageOf :: "nat \<Rightarrow> pending list \<Rightarrow> stage" where
  "stageOf n qs = (if n < length qs then reqStage (qs ! n) else Settled)"

text \<open>
  One step of the event loop. \<open>TimerFires\<close> runs the pending
  \<^verbatim>\<open>setTimeout(this.fetch, ...)\<close>: the call of \<^verbatim>\<open>fetch\<close> replaces the timer and may
  add a request. \<open>Subscribe\<close> is a call of \<^verbatim>\<open>subscribe\<close> from outside; its
  exception, if any, goes to the caller. \<open>Response\<close> settles \<^verbatim>\<open>nodeFetch\<close> with a
  response: the outer \<^verbatim>\<open>then\<close> callback starts reading the body and
  \<^verbatim>\<open>finally\<close> clears the flag of the captured object. \<open>Failure\<close> rejects
  \<^verbatim>\<open>nodeFetch\<close>: \<^verbatim>\<open>catch\<close> logs and \<^verbatim>\<open>finally\<close> clears the flag.
  \<open>BodyRead\<close> resolves \<^verbatim>\<open>resp.text()\<close>: with status 200 the inner callback calls
  \<^verbatim>\<open>notifySubscribers(sourceHash, text)\<close>, with any other status it logs; an
  exception that leaves \<^verbatim>\<open>notifySubscribers\<close> rejects the inner promise, which
  nothing handles.
  \<open>BodyFailed\<close> rejects \<^verbatim>\<open>resp.text()\<close>, which nothing handles. An input for a
  request that is not in the matching stage cannot happen and changes nothing.
\<close>

definition step :: "'cb input \<Rightarrow> 'cb runtime \<Rightarrow> 'cb runtime" where
  "step i rt =
     (case i of
        TimerFires now \<Rightarrow>
          (case pendingTimer rt of
             None \<Rightarrow> rt
           | Some (delay, sourceHashes, index) \<Rightarrow>
               (let f = fetch sourceHashes index now (fetcher rt) in
                rt\<lparr>fetcher := state f, pendingTimer := timer f,
                   requests := requests rt @ dispatched (request f),
                   trace := trace rt @ events f @ uncaught (threw f)\<rparr>))
      | Subscribe sa callback now \<Rightarrow>
          (case subscribe sa callback now (fetcher rt) of
             (s', evs, e) \<Rightarrow> rt\<lparr>fetcher := s', trace := trace rt @ evs\<rparr>)
      | Response n status \<Rightarrow>
          (case stageOf n (requests rt) of
             AwaitingResponse \<Rightarrow>
               rt\<lparr>fetcher := clearBeingProcessed (reqSubscription (requests rt ! n)) (fetcher rt),
                  requests := setStage n (ReadingBody status) (requests rt)\<rparr>
           | _ \<Rightarrow> rt)
      | Failure n message \<Rightarrow>
          (case stageOf n (requests rt) of
             AwaitingResponse \<Rightarrow>
               rt\<lparr>fetcher := clearBeingProcessed (reqSubscription (requests rt ! n)) (fetcher rt),
                  requests := setStage n Settled (requests rt),
                  trace := trace rt @ [Log ''[SOURCE_FETCHER]'']\<rparr>
           | _ \<Rightarrow> rt)
      | BodyRead n text outcome \<Rightarrow>
          (case stageOf n (requests rt) of
             ReadingBody status \<Rightarrow>
               (if status = OK then
                  (case notifySubscribers outcome (reqHash (requests rt ! n)) text (fetcher rt) of
                     (s', evs, e) \<Rightarrow>
                       rt\<lparr>fetcher := s', requests := setStage n Settled (requests rt),
                          trace := trace rt @ evs @ uncaught e\<rparr>)
                else
                  rt\<lparr>requests := setStage n Settled (requests rt),
                     trace := trace rt @ [Log ''[SOURCE_FETCHER:FETCH_FAILED]'']\<rparr>)
           | _ \<Rightarrow> rt)
      | BodyFailed n message \<Rightarrow>
          (case stageOf n (requests rt) of
             ReadingBody status \<Rightarrow>
               rt\<lparr>requests := setStage n Settled (requests rt),
                  trace := trace rt @ [Uncaught (Error message)]\<rparr>
           | _ \<Rightarrow> rt))"

fun run :: "'cb input list \<Rightarrow> 'cb runtime \<Rightarrow> 'cb runtime" where
  "run [] rt = rt"
| "run (i # rest) rt = run rest (step i rt)"

text \<open>
  The constructor: empty maps, zero counters, the three periods (read from the
  environment, with their defaults), and the first call \<^verbatim>\<open>this.fetch([], 0)\<close>.
\<close>

definition defaultGateways :: "string \<Rightarrow> IGateway list" where
  "defaultGateways ipfsUrl =
     [SimpleGateway [''ipfs''] ipfsUrl,
      SimpleGateway [''bzzr0'', ''bzzr1''] ''https://swarm-gateways.net/bzz-raw:/'']"

definition emptyFetcher :: "IGateway list \<Rightarrow> int \<Rightarrow> int \<Rightarrow> int \<Rightarrow> 'cb SourceFetcher" where
  "emptyFetcher gws timeout pause cleanupT =
     \<lparr>subscriptions = [], timestamps = Map.empty,
      store = (\<lambda>r. newSubscription \<lparr>origin = [], fileId = []\<rparr> []),
      nextRef = 0, fileCounter = 0, subscriptionCounter = 0,
      fetchTimeout = timeout, fetchPause = pause, cleanupTime = cleanupT,
      gateways = gws\<rparr>"

definition construct :: "IGateway list \<Rightarrow> int \<Rightarrow> int \<Rightarrow> int \<Rightarrow> 'cb runtime" where
  "construct gws timeout pause cleanupT =
     (let f = fetch [] 0 0 (emptyFetcher gws timeout pause cleanupT) in
      \<lparr>fetcher = state f, pendingTimer = timer f, requests = dispatched (request f),
       trace = events f @ uncaught (threw f)\<rparr>)"

text \<open>The requests for a hash that have been dispatched and are not settled yet.\<close>

definition outstanding :: "hash \<Rightarrow> 'cb runtime \<Rightarrow> pending list" where
  "outstanding h rt = filter (\<lambda>q. reqHash q = h \<and> reqStage q \<noteq> Settled) (requests rt)"

text \<open>The callback invocations that a trace holds for the subscription object \<open>r\<close>.\<close>

fun invocations :: "ref \<Rightarrow> 'cb event list \<Rightarrow> ('cb \<times> string) list" where
  "invocations r [] = []"
| "invocations r (Invoke r' cb file # evs) =
     (if r' = r then (cb, file) # invocations r evs else invocations r evs)"
| "invocations r (Log l # evs) = invocations r evs"
| "invocations r (Uncaught e # evs) = invocations r evs"

fun isInvoke :: "'cb event \<Rightarrow> bool" where
  "isInvoke (Invoke r cb file) = True"
| "isInvoke (Log l) = False"
| "isInvoke (Uncaught e) = False"

section \<open>SourceFetcher, the revision without the in-flight flag\<close>

text \<open>
  The sources hold a second revision of the class: a \<^verbatim>\<open>Subscription\<close> is only
  \<^verbatim>\<open>{ sourceAddress, subscribers }\<close>, there are no counters, \<^verbatim>\<open>subscribe\<close> does
  not look for a gateway (\<^verbatim>\<open>fetch\<close> does), and \<^verbatim>\<open>fetch\<close> starts with
  \<^verbatim>\<open>if (!(index in this.subscriptions)) { return; }\<close>. The operator \<^verbatim>\<open>in\<close>
  turns the number \<^verbatim>\<open>index\<close> into its decimal string and looks that up as a
  key.
\<close>

function decimal :: "nat \<Rightarrow> string" where
  "decimal n =
     (if n < 10 then [''0123456789'' ! n]
      else decimal (n div 10) @ [''0123456789'' ! (n mod 10)])"
  by pat_completeness auto
termination
  by (relation "measure (\<lambda>n. n)") auto

record 'cb Subscription_rev =
  sourceAddress_rev :: SourceAddress
  subscribers_rev :: "'cb list"

record 'cb SourceFetcher_rev =
  subscriptions_rev :: "(hash \<times> ref) list"
  timestamps_rev :: "hash \<rightharpoonup> time"
  store_rev :: "ref \<Rightarrow> 'cb Subscription_rev"
  nextRef_rev :: ref
  fetchTimeout_rev :: int
  fetchPause_rev :: int
  cleanupTime_rev :: int
  gateways_rev :: "IGateway list"

definition cleanup_rev ::
  "hash \<Rightarrow> 'cb SourceFetcher_rev \<Rightarrow> 'cb SourceFetcher_rev \<times> 'cb event list" where
  "cleanup_rev sourceHash s =
     (s\<lparr>timestamps_rev := (timestamps_rev s)(sourceHash := None),
        subscriptions_rev := AList.delete sourceHash (subscriptions_rev s)\<rparr>,
      [Log ''[SOURCE_FETCHER:CLEANUP]''])"

definition shouldCleanup_rev :: "hash \<Rightarrow> time \<Rightarrow> 'cb SourceFetcher_rev \<Rightarrow> bool" where
  "shouldCleanup_rev sourceHash now s =
     (case timestamps_rev s sourceHash of
        None \<Rightarrow> False
      | Some timestamp \<Rightarrow> timestamp + cleanupTime_rev s < now)"

text \<open>
  \<^verbatim>\<open>notifySubscribers\<close> of this revision: the same \<^verbatim>\<open>forEach\<close> over the
  subscribers of the taken object, after \<^verbatim>\<open>cleanup\<close>; the exception of a callback
  that throws leaves the function.
\<close>

definition notifySubscribers_rev ::
  "('cb \<Rightarrow> string \<Rightarrow> error option) \<Rightarrow> hash \<Rightarrow> string \<Rightarrow> 'cb SourceFetcher_rev
     \<Rightarrow> 'cb SourceFetcher_rev \<times> 'cb event list \<times> error option" where
  "notifySubscribers_rev outcome i file s =
     (case map_of (subscriptions_rev s) i of
        None \<Rightarrow> (s, [], None)
      | Some subscription \<Rightarrow>
          (case cleanup_rev i s of
             (s', evs) \<Rightarrow>
               (case forEach outcome subscription file (subscribers_rev (store_rev s' subscription)) of
                  (calls, e) \<Rightarrow> (s', evs @ [Log ''[SOURCE_FETCHER:NOTIFY]''] @ calls, e))))"

definition subscribe_rev ::
  "SourceAddress \<Rightarrow> 'cb \<Rightarrow> time \<Rightarrow> 'cb SourceFetcher_rev \<Rightarrow> 'cb SourceFetcher_rev" where
  "subscribe_rev sa callback now s =
     (let sourceHash = getUniqueIdentifier sa;
          (r, s1) =
            (case map_of (subscriptions_rev s) sourceHash of
               Some r \<Rightarrow> (r, s)
             | None \<Rightarrow>
                 (nextRef_rev s,
                  s\<lparr>subscriptions_rev := subscriptions_rev s @ [(sourceHash, nextRef_rev s)],
                    store_rev := (store_rev s)
                      (nextRef_rev s := \<lparr>sourceAddress_rev = sa, subscribers_rev = []\<rparr>),
                    nextRef_rev := Suc (nextRef_rev s)\<rparr>));
          s2 = s1\<lparr>timestamps_rev := (timestamps_rev s1)(sourceHash \<mapsto> now)\<rparr>
      in s2\<lparr>store_rev := (store_rev s2)
              (r := (store_rev s2 r)\<lparr>subscribers_rev := subscribers_rev (store_rev s2 r) @ [callback]\<rparr>)\<rparr>)"

record 'cb fetched_rev =
  state_rev :: "'cb SourceFetcher_rev"
  events_rev :: "'cb event list"
  timer_rev :: "(int \<times> hash list \<times> nat) option"
  request_rev :: "(string \<times> hash \<times> ref) option"
  threw_rev :: "error option"

text \<open>
  \<^verbatim>\<open>fetch\<close> of this revision. On the path \<^verbatim>\<open>return\<close> no timer is set. Past the
  \<^verbatim>\<open>index in\<close> test the subscription of \<^verbatim>\<open>sourceHash\<close> is read without a test
  (a TypeError when it is missing), and \<^verbatim>\<open>findGateway\<close> may throw.
\<close>

definition fetch_rev ::
  "hash list \<Rightarrow> nat \<Rightarrow> time \<Rightarrow> 'cb SourceFetcher_rev \<Rightarrow> 'cb fetched_rev" where
  "fetch_rev sourceHashes index now s =
     (if index \<ge> length sourceHashes then
        \<lparr>state_rev = s, events_rev = [Log ''[SOURCE_FETCHER]''],
         timer_rev = Some (fetchPause_rev s, map fst (subscriptions_rev s), STARTING_INDEX),
         request_rev = None, threw_rev = None\<rparr>
      else
        (let sourceHash = sourceHashes ! index in
         if decimal index \<notin> set (map fst (subscriptions_rev s)) then
           \<lparr>state_rev = s, events_rev = [], timer_rev = None, request_rev = None,
            threw_rev = None\<rparr>
         else if shouldCleanup_rev sourceHash now s then
           (case cleanup_rev sourceHash s of
              (s', evs) \<Rightarrow>
                \<lparr>state_rev = s', events_rev = evs,
                 timer_rev = Some (fetchPause_rev s, sourceHashes, index + 1),
                 request_rev = None, threw_rev = None\<rparr>)
         else
           (case map_of (subscriptions_rev s) sourceHash of
              None \<Rightarrow>
                \<lparr>state_rev = s, events_rev = [], timer_rev = None, request_rev = None,
                 threw_rev = Some (TypeError ''Cannot read property sourceAddress of undefined'')\<rparr>
            | Some subscription \<Rightarrow>
                (case findGateway (gateways_rev s) (sourceAddress_rev (store_rev s subscription)) of
                   Inl e \<Rightarrow>
                     \<lparr>state_rev = s, events_rev = [], timer_rev = None, request_rev = None,
                      threw_rev = Some e\<rparr>
                 | Inr gateway \<Rightarrow>
                     \<lparr>state_rev = s, events_rev = [],
                      timer_rev = Some (fetchPause_rev s, sourceHashes, index + 1),
                      request_rev =
                        Some (createUrl gateway (fileId (sourceAddress_rev (store_rev s subscription))),
                              sourceHash, subscription),
                      threw_rev = None\<rparr>))))"

text \<open>The constructor of this revision: three gateways, empty maps.\<close>

definition defaultGateways_rev :: "string \<Rightarrow> IGateway list" where
  "defaultGateways_rev ipfsUrl =
     [SimpleGateway [''ipfs''] ipfsUrl,
      SimpleGateway [''bzzr0'', ''bzzr1''] ''https://swarm-gateways.net/bzz-raw:/'',
      SimpleGateway [''bzzr0'', ''bzzr1''] ''https://gateway.ethswarm.org/bzz/'']"

definition emptyFetcher_rev :: "IGateway list \<Rightarrow> int \<Rightarrow> int \<Rightarrow> int \<Rightarrow> 'cb SourceFetcher_rev" where
  "emptyFetcher_rev gws timeout pause cleanupT =
     \<lparr>subscriptions_rev = [], timestamps_rev = Map.empty,
      store_rev = (\<lambda>r. \<lparr>sourceAddress_rev = \<lparr>origin = [], fileId = []\<rparr>, subscribers_rev = []\<rparr>),
      nextRef_rev = 0,
      fetchTimeout_rev = timeout, fetchPause_rev = pause, cleanupTime_rev = cleanupT,
      gateways_rev = gws\<rparr>"

section \<open>ChainMonitor (src/monitor/monitor.ts)\<close>

text \<open>
  A transaction creates a contract when \<^verbatim>\<open>!tx.to\<close>: \<^verbatim>\<open>to\<close> is null or the empty
  string. Block numbers and try counters are JavaScript numbers holding integers far
  below \<open>2^53\<close>, where \<^verbatim>\<open>++\<close> and \<^verbatim>\<open>--\<close> are exact. A promise of the RPC client
  either resolves with a result or rejects with a message.
\<close>

record Transaction =
  txFrom :: string
  txTo :: "string option"
  txNonce :: nat

record Block =
  transactions :: "Transaction list"

datatype 'a promise = Resolves 'a | Rejects string

record ChainMonitor =
  chainId :: string
  getCodeRetryPause :: int
  getBlockPause :: int
  initialGetBytecodeTries :: int

text \<open>
  What the monitor does to the outside: RPC calls, timers
  (\<^verbatim>\<open>setTimeout(this.processBlock, pause, blockNumber)\<close> and
  \<^verbatim>\<open>setTimeout(this.processBytecode, pause, address, retriesLeft)\<close>), calls of
  \<^verbatim>\<open>processBytecode\<close>, of the assembler, and logger lines.
\<close>

datatype effect =
    GetBlock nat
  | GetCode string
  | CallProcessBytecode string int
  | TimeoutProcessBlock int nat
  | TimeoutProcessBytecode int string int
  | Assemble SourceAddress string string
  | LogInfo string
  | LogError string

definition createsContract :: "Transaction \<Rightarrow> bool" where
  "createsContract tx = (case txTo tx of None \<Rightarrow> True | Some a \<Rightarrow> a = [])"

text \<open>
  The loop \<^verbatim>\<open>for (const tx of block.transactions)\<close> of \<^verbatim>\<open>processBlock\<close>.
  \<open>getContractAddress\<close> is \<^verbatim>\<open>ethers.utils.getContractAddress\<close>, a library
  function of the sender and the nonce, which throws on a transaction it does not
  accept (\<open>Inl\<close>); the address it returns is one that \<^verbatim>\<open>getCode\<close> accepts, so the
  call of \<^verbatim>\<open>processBytecode\<close> returns. There is no \<^verbatim>\<open>try\<close> in the loop: an
  exception ends it, after the calls made for the transactions before. The result is
  the calls made and the exception, if any.
\<close>

fun forTransactions ::
  "(Transaction \<Rightarrow> error + string) \<Rightarrow> int \<Rightarrow> Transaction list \<Rightarrow> effect list \<times> error option" where
  "forTransactions getContractAddress tries [] = ([], None)"
| "forTransactions getContractAddress tries (tx # rest) =
     (if createsContract tx then
        (case getContractAddress tx of
           Inl e \<Rightarrow> ([], Some e)
         | Inr address \<Rightarrow>
             (case forTransactions getContractAddress tries rest of
                (calls, e) \<Rightarrow> (CallProcessBytecode address tries # calls, e)))
      else forTransactions getContractAddress tries rest)"

text \<open>
  \<^verbatim>\<open>processBlock\<close>. \<open>reply\<close> is how the promise of
  \<^verbatim>\<open>getBlock(blockNumber, true)\<close> settles, with \<open>None\<close> for a null block. The
  \<^verbatim>\<open>then\<close> callback returns early on a null block, else runs the loop over the
  transactions and, when the loop has ended without an exception, increments the
  captured \<^verbatim>\<open>blockNumber\<close>. \<^verbatim>\<open>catch\<close> logs a rejection of the RPC call and
  an exception of the callback alike; \<^verbatim>\<open>finally\<close> sets the timer with the
  captured \<^verbatim>\<open>blockNumber\<close>.
\<close>

definition processBlock ::
  "ChainMonitor \<Rightarrow> (Transaction \<Rightarrow> error + string) \<Rightarrow> nat \<Rightarrow> Block option promise
     \<Rightarrow> effect list" where
  "processBlock cm getContractAddress blockNumber reply =
     (let (effects, blockNumber') =
            (case reply of
               Resolves None \<Rightarrow> ([LogInfo ''[PROCESS_BLOCK]''], blockNumber)
             | Resolves (Some block) \<Rightarrow>
                 (case forTransactions getContractAddress (initialGetBytecodeTries cm)
                         (transactions block) of
                    (calls, None) \<Rightarrow> (calls, blockNumber + 1)
                  | (calls, Some e) \<Rightarrow>
                      (calls @ [LogError ''[PROCESS_BLOCK:FAILED]''], blockNumber))
             | Rejects message \<Rightarrow> ([LogError ''[PROCESS_BLOCK:FAILED]''], blockNumber))
      in GetBlock blockNumber # effects @ [TimeoutProcessBlock (getBlockPause cm) blockNumber'])"

text \<open>
  The library functions that \<^verbatim>\<open>processBytecode\<close> calls on a non-empty bytecode:
  \<^verbatim>\<open>Web3.utils.hexToBytes\<close> (outside the \<^verbatim>\<open>try\<close>, so its exception reaches the
  \<^verbatim>\<open>catch\<close> of the promise), and inside the \<^verbatim>\<open>try\<close> \<^verbatim>\<open>cborDecode\<close>,
  \<^verbatim>\<open>SourceAddress.fromCborData\<close> and \<^verbatim>\<open>contractAssembler.assemble\<close>. None of them
  is among the sources; they are parameters.
\<close>

record 'c library =
  hexToBytes :: "string \<Rightarrow> error + nat list"
  cborDecode :: "nat list \<Rightarrow> error + 'c"
  fromCborData :: "'c \<Rightarrow> error + SourceAddress"
  assemble :: "SourceAddress \<Rightarrow> error option"

text \<open>
  \<^verbatim>\<open>processBytecode\<close>, with the calls that its own timers make unrolled: \<open>replies k\<close>
  is how the promise of the \<open>k\<close>-th call of \<^verbatim>\<open>getCode\<close> settles. The counter is
  decremented on entry (\<^verbatim>\<open>retriesLeft-- <= 0\<close>), and the timers pass the decremented
  value on.
\<close>

function processBytecode ::
  "ChainMonitor \<Rightarrow> 'c library \<Rightarrow> (nat \<Rightarrow> string promise) \<Rightarrow> nat \<Rightarrow> string \<Rightarrow> int \<Rightarrow> effect list" where
  "processBytecode cm lib replies k address retriesLeft =
     (if retriesLeft \<le> 0 then []
      else
        GetCode address #
        (case replies k of
           Rejects message \<Rightarrow>
             LogError ''[GET_CODE]''
               # TimeoutProcessBytecode (getCodeRetryPause cm) address (retriesLeft - 1)
               # processBytecode cm lib replies (k + 1) address (retriesLeft - 1)
         | Resolves bytecode \<Rightarrow>
             if bytecode = ''0x'' then
               LogInfo ''[PROCESS_BYTECODE]''
                 # TimeoutProcessBytecode (getCodeRetryPause cm) address (retriesLeft - 1)
                 # processBytecode cm lib replies (k + 1) address (retriesLeft - 1)
             else
               (case hexToBytes lib bytecode of
                  Inl e \<Rightarrow>
                    LogError ''[GET_CODE]''
                      # TimeoutProcessBytecode (getCodeRetryPause cm) address (retriesLeft - 1)
                      # processBytecode cm lib replies (k + 1) address (retriesLeft - 1)
                | Inr numericBytecode \<Rightarrow>
                    (case cborDecode lib numericBytecode of
                       Inl e \<Rightarrow> [LogError ''[GET_CODE:METADATA_READING]'']
                     | Inr cborData \<Rightarrow>
                         (case fromCborData lib cborData of
                            Inl e \<Rightarrow> [LogError ''[GET_CODE:METADATA_READING]'']
                          | Inr metadataAddress \<Rightarrow>
                              (case assemble lib metadataAddress of
                                 Some e \<Rightarrow> [LogError ''[GET_CODE:METADATA_READING]'']
                               | None \<Rightarrow> [Assemble metadataAddress bytecode address]))))))"
  by pat_completeness auto
termination
  by (relation "measure (\<lambda>(cm, lib, replies, k, address, retriesLeft). nat retriesLeft)") auto

fun isGetCode :: "effect \<Rightarrow> bool" where
  "isGetCode (GetCode a) = True"
| "isGetCode e = False"

fun isTimeoutProcessBlock :: "effect \<Rightarrow> bool" where
  "isTimeoutProcessBlock (TimeoutProcessBlock d n) = True"
| "isTimeoutProcessBlock e = False"

section \<open>Invariants of the event loop\<close>

text \<open>
  The subscription map holds every key once and every subscription object once, and
  only objects that have been allocated. An object is detached when it has been
  allocated and the map does not hold it (\<^verbatim>\<open>cleanup\<close> removed it): nothing puts a
  detached object back, since \<^verbatim>\<open>subscribe\<close> allocates a new one.
\<close>

definition wf :: "'cb SourceFetcher \<Rightarrow> bool" where
  "wf s = (distinct (map fst (subscriptions s)) \<and> distinct (map snd (subscriptions s))
           \<and> list_all (\<lambda>p. snd p < nextRef s) (subscriptions s))"

definition detached :: "ref \<Rightarrow> 'cb SourceFetcher \<Rightarrow> bool" where
  "detached r s = (r < nextRef s \<and> r \<notin> snd ` set (subscriptions s))"

definition inv :: "'cb runtime \<Rightarrow> bool" where
  "inv rt = (wf (fetcher rt) \<and> (\<forall>r. invocations r (trace rt) \<noteq> [] \<longrightarrow> detached r (fetcher rt)))"

section \<open>Example runs\<close>

definition exampleAddress :: SourceAddress where
  "exampleAddress = \<lparr>origin = ''ipfs'', fileId = ''QmHash''\<rparr>"

definition exampleFetcher :: "nat runtime" where
  "exampleFetcher = construct (defaultGateways ''https://ipfs.infura.io:5001/api/v0/cat?arg='') 300000 1000 1800000"

definition exampleDispatch :: "nat input list" where
  "exampleDispatch = [Subscribe exampleAddress 7 0, TimerFires 1, TimerFires 2]"


definition exampleRev :: "nat SourceFetcher_rev" where
  "exampleRev =
     subscribe_rev exampleAddress 7 0
       (emptyFetcher_rev (defaultGateways_rev ''https://ipfs.infura.io:5001/api/v0/cat?arg='')
          300000 1000 1800000)"

definition exampleEmpty :: "nat SourceFetcher" where
  "exampleEmpty =
     emptyFetcher (defaultGateways ''https://ipfs.infura.io:5001/api/v0/cat?arg='') 300000 1000 1800000"

definition exampleShortCleanup :: "nat runtime" where
  "exampleShortCleanup =
     construct (defaultGateways ''https://ipfs.infura.io:5001/api/v0/cat?arg='') 300000 1000 1000"

definition exampleSubscribed :: "nat SourceFetcher" where
  "exampleSubscribed = fst (subscribe exampleAddress 7 5 exampleEmpty)"

definition exampleExpiry :: "nat input list" where
  "exampleExpiry = [Subscribe exampleAddress 7 0, TimerFires 1, TimerFires 2, Failure 0 ''timeout'', TimerFires 1003]"

definition exampleMonitor :: ChainMonitor where
  "exampleMonitor =
     \<lparr>chainId = ''1'', getCodeRetryPause = 2000, getBlockPause = 2000, initialGetBytecodeTries = 3\<rparr>"

definition exampleLibrary :: "(string \<times> nat list) list library" where
  "exampleLibrary =
     \<lparr>hexToBytes = (\<lambda>hex. Inl (Error ''not a valid hex string'')),
      cborDecode = (\<lambda>bytes. Inl (Error ''cannot decode'')),
      fromCborData = (\<lambda>cbor. Inl (Error ''unsupported origin'')),
      assemble = (\<lambda>sa. None)\<rparr>"

text \<open>
  A stand-in for \<^verbatim>\<open>ethers.utils.getContractAddress\<close> in the examples: it throws on a
  sender that is not 42 characters long, as the library does on a missing or malformed
  \<^verbatim>\<open>from\<close>, and else returns some address.
\<close>

definition exampleGetContractAddress :: "Transaction \<Rightarrow> error + string" where
  "exampleGetContractAddress tx =
     (if length (txFrom tx) = 42 then Inr (''0x'' @ rev (drop 2 (txFrom tx)))
      else Inl (Error ''missing from address''))"

definition exampleBlock :: Block where
  "exampleBlock =
     \<lparr>transactions =
        [\<lparr>txFrom = ''0x00000000219ab540356cBB839Cbe05303d7705Fa'', txTo = None, txNonce = 0\<rparr>,
         \<lparr>txFrom = ''0x00000000219ab540356cBB839Cbe05303d7705Fa'',
          txTo = Some ''0xC02aaA39b223FE8D0A0e5C4F27eAD9083C756Cc2'', txNonce = 1\<rparr>]\<rparr>"

text \<open>A block whose second contract creation has no sender.\<close>

definition exampleBadBlock :: Block where
  "exampleBadBlock =
     \<lparr>transactions =
        [\<lparr>txFrom = ''0x00000000219ab540356cBB839Cbe05303d7705Fa'', txTo = None, txNonce = 0\<rparr>,
         \<lparr>txFrom = [], txTo = None, txNonce = 0\<rparr>,
         \<lparr>txFrom = ''0x00000000219ab540356cBB839Cbe05303d7705Fa'', txTo = None, txNonce = 1\<rparr>]\<rparr>"

text \<open>Callbacks that return, and callbacks of which number 7 throws.\<close>

definition returning :: "nat \<Rightarrow> string \<Rightarrow> error option" where
  "returning cb file = None"

definition throwing :: "nat \<Rightarrow> string \<Rightarrow> error option" where
  "throwing cb file = (if cb = 7 then Some (Error ''Unexpected token'') else None)"

definition exampleTwoSubscribers :: "nat input list" where
  "exampleTwoSubscribers =
     [Subscribe exampleAddress 7 0, Subscribe exampleAddress 8 0, TimerFires 1, TimerFires 2,
      Response 0 200]"


definition exampleReplies :: "nat \<Rightarrow> string promise" where
  "exampleReplies k = (if k = 3 then Rejects ''timeout'' else Resolves ''0x'')"

section \<open>Lemmas about SourceFetcher\<close>

lemma cleanup_Some:
  "map_of (subscriptions s) h = Some r \<Longrightarrow>
   cleanup h s =
     (s\<lparr>timestamps := (timestamps s)(h := None),
        subscriptions := AList.delete h (subscriptions s),
        fileCounter := fileCounter s - 1,
        subscriptionCounter := subscriptionCounter s - int (length (subscribers (store s r)))\<rparr>,
      [Log ''[SOURCE_FETCHER:CLEANUP]''], None)"
  by (simp add: cleanup_def Let_def)

lemma forEach_called:
  "fst (forEach outcome r file cbs) = map (\<lambda>cb. Invoke r cb file) (called outcome file cbs)"
  by (induction cbs) (auto split: option.splits prod.splits)

lemma called_all:
  "\<forall>cb \<in> set cbs. outcome cb file = None \<Longrightarrow> called outcome file cbs = cbs"
  by (induction cbs) auto

lemma called_prefix:
  "take (length (called outcome file cbs)) cbs = called outcome file cbs"
  by (induction cbs) (auto split: option.splits)

lemma called_returned:
  "\<forall>cb \<in> set (butlast (called outcome file cbs)). outcome cb file = None"
  by (induction cbs) (auto split: option.splits)

lemma forEach_returns:
  "\<forall>cb \<in> set cbs. outcome cb file = None \<Longrightarrow> snd (forEach outcome r file cbs) = None"
  by (induction cbs) (auto split: prod.splits)

lemma notify_Some:
  "map_of (subscriptions s) h = Some r \<Longrightarrow>
   notifySubscribers outcome h content s =
     (s\<lparr>timestamps := (timestamps s)(h := None),
        subscriptions := AList.delete h (subscriptions s),
        fileCounter := fileCounter s - 1,
        subscriptionCounter := subscriptionCounter s - int (length (subscribers (store s r)))\<rparr>,
      [Log ''[SOURCE_FETCHER:CLEANUP]'', Log ''[SOURCE_FETCHER:NOTIFY]'']
        @ map (\<lambda>cb. Invoke r cb content) (called outcome content (subscribers (store s r))),
      snd (forEach outcome r content (subscribers (store s r))))"
  using forEach_called[of outcome r content "subscribers (store s r)"]
  by (auto simp: notifySubscribers_def cleanup_Some split: prod.splits)

lemma notify_None:
  "map_of (subscriptions s) h = None \<Longrightarrow> notifySubscribers outcome h file s = (s, [], None)"
  by (simp add: notifySubscribers_def)

lemma delete_snd_subset: "snd ` set (AList.delete h al) \<subseteq> snd ` set al"
  by (auto simp: AList.delete_eq)

lemma distinct_snd_delete: "distinct (map snd al) \<Longrightarrow> distinct (map snd (AList.delete h al))"
  by (simp add: AList.delete_eq distinct_map_filter)

lemma map_of_snd_in: "map_of al h = Some r \<Longrightarrow> (h, r) \<in> set al"
  by (rule map_of_SomeD)

lemma delete_detaches:
  "distinct (map snd al) \<Longrightarrow> map_of al h = Some r \<Longrightarrow> r \<notin> snd ` set (AList.delete h al)"
proof
  assume d: "distinct (map snd al)" and m: "map_of al h = Some r"
    and a: "r \<in> snd ` set (AList.delete h al)"
  from a obtain k where k: "(k, r) \<in> set al" "k \<noteq> h"
    by (auto simp: AList.delete_eq)
  from m have "(h, r) \<in> set al" by (rule map_of_SomeD)
  with k d show False
    by (metis distinct_map inj_onD snd_conv prod.inject)
qed

lemma wf_delete:
  "wf s \<Longrightarrow> wf (s\<lparr>timestamps := t, subscriptions := AList.delete h (subscriptions s), fileCounter := f, subscriptionCounter := c\<rparr>)"
  using distinct_delete[of "subscriptions s" h] distinct_snd_delete[of "subscriptions s" h]
  by (auto simp: wf_def list_all_iff AList.delete_eq)

lemma wf_cleanup: "wf s \<Longrightarrow> wf (fst (cleanup h s))"
  by (cases "map_of (subscriptions s) h") (auto simp: cleanup_Some wf_delete, auto simp: cleanup_def wf_def)


lemma invocations_append [simp]:
  "invocations r (xs @ ys) = invocations r xs @ invocations r ys"
  by (induction r xs rule: invocations.induct) auto

lemma invocations_map_Invoke [simp]:
  "invocations r (map (\<lambda>cb. Invoke r' cb file) cbs) = (if r' = r then map (\<lambda>cb. (cb, file)) cbs else [])"
  by (induction cbs) auto

lemma invocations_uncaught [simp]: "invocations r (uncaught e) = []"
  by (cases e) (auto simp: uncaught_def)

lemma isInvoke_uncaught [simp]: "filter isInvoke (uncaught e) = []"
  by (cases e) (auto simp: uncaught_def)

lemma isInvoke_map_Invoke [simp]: "filter isInvoke (map (\<lambda>cb. Invoke r cb file) cbs) = map (\<lambda>cb. Invoke r cb file) cbs"
  by (induction cbs) auto

subsection \<open>subscribe\<close>

lemma findGateway_none:
  "\<forall>g \<in> set gws. \<not> worksWith g (origin sa) \<Longrightarrow>
   findGateway gws sa = Inl (Error (''Gateway not found for '' @ origin sa))"
  by (induction gws) simp_all

lemma subscribe_throws:
  "findGateway (gateways s) sa = Inl e \<Longrightarrow> subscribe sa cb now s = (s, [], Some e)"
  by (simp add: subscribe_def)

lemma subscribe_new:
  "findGateway (gateways s) sa = Inr g \<Longrightarrow> map_of (subscriptions s) (getUniqueIdentifier sa) = None \<Longrightarrow>
   subscribe sa cb now s =
     (s\<lparr>subscriptions := subscriptions s @ [(getUniqueIdentifier sa, nextRef s)],
        store := (store s)(nextRef s := \<lparr>sourceAddress = sa, fetchUrl = createUrl g (fileId sa),
                                         beingProcessed = False, subscribers = [cb]\<rparr>),
        nextRef := Suc (nextRef s),
        fileCounter := fileCounter s + 1,
        timestamps := (timestamps s)(getUniqueIdentifier sa \<mapsto> now),
        subscriptionCounter := subscriptionCounter s + 1\<rparr>,
      [Log ''[SOURCE_FETCHER:NEW_SUBSCRIPTION]''], None)"
  by (simp add: subscribe_def Let_def newSubscription_def)

lemma subscribe_old:
  "findGateway (gateways s) sa = Inr g \<Longrightarrow> map_of (subscriptions s) (getUniqueIdentifier sa) = Some r \<Longrightarrow>
   subscribe sa cb now s =
     (s\<lparr>timestamps := (timestamps s)(getUniqueIdentifier sa \<mapsto> now),
        store := (store s)(r := (store s r)\<lparr>subscribers := subscribers (store s r) @ [cb]\<rparr>),
        subscriptionCounter := subscriptionCounter s + 1\<rparr>,
      [Log ''[SOURCE_FETCHER:NEW_SUBSCRIPTION]''], None)"
  by (simp add: subscribe_def Let_def)

lemma subscribe_cases:
  obtains (throws) e where "findGateway (gateways s) sa = Inl e"
  | (new) g where "findGateway (gateways s) sa = Inr g" "map_of (subscriptions s) (getUniqueIdentifier sa) = None"
  | (old) g r where "findGateway (gateways s) sa = Inr g" "map_of (subscriptions s) (getUniqueIdentifier sa) = Some r"
  by (cases "findGateway (gateways s) sa"; cases "map_of (subscriptions s) (getUniqueIdentifier sa)") auto

lemma map_of_None_fst: "map_of al h = None \<Longrightarrow> h \<notin> fst ` set al"
  by (simp add: map_of_eq_None_iff)

lemma wf_subscribe: "wf s \<Longrightarrow> wf (fst (subscribe sa cb now s))"
proof (cases rule: subscribe_cases[of s sa])
  case (throws e)
  assume "wf s" then show ?thesis using throws by (simp add: subscribe_throws)
next
  case (new g)
  assume w: "wf s"
  have "getUniqueIdentifier sa \<notin> fst ` set (subscriptions s)"
    using new(2) by (rule map_of_None_fst)
  moreover have "nextRef s \<notin> snd ` set (subscriptions s)"
    using w by (auto simp: wf_def list_all_iff)
  ultimately show ?thesis using w new
    by (auto simp: subscribe_new wf_def list_all_iff less_Suc_eq)
next
  case (old g r)
  assume "wf s" then show ?thesis using old by (simp add: subscribe_old wf_def)
qed

lemma subscribe_events: "invocations r (fst (snd (subscribe sa cb now s))) = []"
  by (cases rule: subscribe_cases[of s sa]) (simp_all add: subscribe_throws subscribe_new subscribe_old)

lemma subscribe_detached:
  "detached r s \<Longrightarrow> detached r (fst (subscribe sa cb now s))"
  by (cases rule: subscribe_cases[of s sa])
     (auto simp: subscribe_throws subscribe_new subscribe_old detached_def)


subsection \<open>fetch\<close>

lemma fetch_end:
  "length hs \<le> i \<Longrightarrow>
   fetch hs i now s = \<lparr>state = s, events = [], timer = Some (NO_PAUSE, map fst (subscriptions s), STARTING_INDEX),
                       request = None, threw = None\<rparr>"
  by (simp add: fetch_def)

lemma fetch_unsubscribed:
  "i < length hs \<Longrightarrow> map_of (subscriptions s) (hs ! i) = None \<Longrightarrow>
   fetch hs i now s = \<lparr>state = s, events = [], timer = Some (NO_PAUSE, hs, i + 1), request = None, threw = None\<rparr>"
  by (simp add: fetch_def Let_def)

lemma fetch_busy:
  "i < length hs \<Longrightarrow> map_of (subscriptions s) (hs ! i) = Some r \<Longrightarrow> beingProcessed (store s r) \<Longrightarrow>
   fetch hs i now s = \<lparr>state = s, events = [], timer = Some (NO_PAUSE, hs, i + 1), request = None, threw = None\<rparr>"
  by (simp add: fetch_def Let_def)

lemma fetch_cleanup:
  "i < length hs \<Longrightarrow> map_of (subscriptions s) (hs ! i) = Some r \<Longrightarrow> \<not> beingProcessed (store s r) \<Longrightarrow>
   shouldCleanup (hs ! i) now s \<Longrightarrow>
   fetch hs i now s =
     \<lparr>state = s\<lparr>timestamps := (timestamps s)(hs ! i := None),
                subscriptions := AList.delete (hs ! i) (subscriptions s),
                fileCounter := fileCounter s - 1,
                subscriptionCounter := subscriptionCounter s - int (length (subscribers (store s r)))\<rparr>,
      events = [Log ''[SOURCE_FETCHER:CLEANUP]''], timer = Some (NO_PAUSE, hs, i + 1),
      request = None, threw = None\<rparr>"
  by (simp add: fetch_def Let_def cleanup_Some)

lemma fetch_dispatch:
  "i < length hs \<Longrightarrow> map_of (subscriptions s) (hs ! i) = Some r \<Longrightarrow> \<not> beingProcessed (store s r) \<Longrightarrow>
   \<not> shouldCleanup (hs ! i) now s \<Longrightarrow>
   fetch hs i now s =
     \<lparr>state = s\<lparr>store := (store s)(r := (store s r)\<lparr>beingProcessed := True\<rparr>)\<rparr>,
      events = [], timer = Some (fetchPause s, hs, i + 1),
      request = Some (fetchUrl (store s r), hs ! i, r), threw = None\<rparr>"
  by (simp add: fetch_def Let_def)

lemma fetch_cases:
  obtains (finished) "length hs \<le> i"
  | (unsubscribed) "i < length hs" "map_of (subscriptions s) (hs ! i) = None"
  | (busy) r where "i < length hs" "map_of (subscriptions s) (hs ! i) = Some r" "beingProcessed (store s r)"
  | (expired) r where "i < length hs" "map_of (subscriptions s) (hs ! i) = Some r" "\<not> beingProcessed (store s r)"
      "shouldCleanup (hs ! i) now s"
  | (dispatch) r where "i < length hs" "map_of (subscriptions s) (hs ! i) = Some r" "\<not> beingProcessed (store s r)"
      "\<not> shouldCleanup (hs ! i) now s"
  by (cases "i < length hs"; cases "map_of (subscriptions s) (hs ! i)";
      cases "beingProcessed (store s (the (map_of (subscriptions s) (hs ! i))))";
      cases "shouldCleanup (hs ! i) now s") (simp_all add: not_less)

lemma fetch_total: "threw (fetch hs i now s) = None \<and> timer (fetch hs i now s) \<noteq> None"
  by (cases rule: fetch_cases[where hs=hs and i=i and s=s and now=now])
     (simp_all add: fetch_end fetch_unsubscribed fetch_busy fetch_cleanup fetch_dispatch)

lemma fetch_events: "invocations r (events (fetch hs i now s)) = []"
  by (cases rule: fetch_cases[where hs=hs and i=i and s=s and now=now])
     (simp_all add: fetch_end fetch_unsubscribed fetch_busy fetch_cleanup fetch_dispatch)

lemma wf_fetch: "wf s \<Longrightarrow> wf (state (fetch hs i now s))"
  by (cases rule: fetch_cases[where hs=hs and i=i and s=s and now=now])
     (simp_all add: fetch_end fetch_unsubscribed fetch_busy fetch_cleanup fetch_dispatch wf_delete, simp add: wf_def)

lemma detached_delete:
  "detached r s \<Longrightarrow> detached r (s\<lparr>timestamps := t, subscriptions := AList.delete h (subscriptions s), fileCounter := f, subscriptionCounter := c\<rparr>)"
  using delete_snd_subset[of h "subscriptions s"] by (auto simp: detached_def)

lemma detached_fetch: "detached r s \<Longrightarrow> detached r (state (fetch hs i now s))"
  by (cases rule: fetch_cases[where hs=hs and i=i and s=s and now=now])
     (simp_all add: fetch_end fetch_unsubscribed fetch_busy fetch_cleanup fetch_dispatch detached_delete, simp add: detached_def)

lemma detached_notify: "detached r s \<Longrightarrow> detached r (fst (notifySubscribers outcome h file s))"
  by (cases "map_of (subscriptions s) h") (simp_all add: notify_None notify_Some detached_delete)

lemma wf_notify: "wf s \<Longrightarrow> wf (fst (notifySubscribers outcome h file s))"
  by (cases "map_of (subscriptions s) h") (simp_all add: notify_None notify_Some wf_delete)

lemma notify_invocations_detached:
  "detached r s \<Longrightarrow> invocations r (fst (snd (notifySubscribers outcome h file s))) = []"
proof (cases "map_of (subscriptions s) h")
  case None then show ?thesis by (simp add: notify_None)
next
  case (Some r')
  assume "detached r s"
  moreover from Some have "r' \<in> snd ` set (subscriptions s)"
    by (force dest: map_of_SomeD)
  ultimately have "r' \<noteq> r" by (auto simp: detached_def)
  then show ?thesis using Some by (simp add: notify_Some)
qed

lemma wf_clear [simp]: "wf (clearBeingProcessed r s) = wf s"
  by (simp add: wf_def clearBeingProcessed_def)

lemma detached_clear [simp]: "detached r (clearBeingProcessed r' s) = detached r s"
  by (simp add: detached_def clearBeingProcessed_def)


subsection \<open>The steps of the event loop\<close>

lemma step_TimerFires:
  "step (TimerFires now) rt =
     (case pendingTimer rt of
        None \<Rightarrow> rt
      | Some (delay, hs, i) \<Rightarrow>
          rt\<lparr>fetcher := state (fetch hs i now (fetcher rt)),
             pendingTimer := timer (fetch hs i now (fetcher rt)),
             requests := requests rt @ dispatched (request (fetch hs i now (fetcher rt))),
             trace := trace rt @ events (fetch hs i now (fetcher rt))\<rparr>)"
  by (simp add: step_def Let_def fetch_total uncaught_def split: option.splits prod.splits)

lemma step_Subscribe:
  "step (Subscribe sa cb now) rt =
     rt\<lparr>fetcher := fst (subscribe sa cb now (fetcher rt)),
        trace := trace rt @ fst (snd (subscribe sa cb now (fetcher rt)))\<rparr>"
  by (simp add: step_def split: prod.splits)

lemma step_Response:
  "step (Response n status) rt =
     (if stageOf n (requests rt) = AwaitingResponse then
        rt\<lparr>fetcher := clearBeingProcessed (reqSubscription (requests rt ! n)) (fetcher rt),
           requests := setStage n (ReadingBody status) (requests rt)\<rparr>
      else rt)"
  by (simp add: step_def split: stage.splits)

lemma step_Failure:
  "step (Failure n message) rt =
     (if stageOf n (requests rt) = AwaitingResponse then
        rt\<lparr>fetcher := clearBeingProcessed (reqSubscription (requests rt ! n)) (fetcher rt),
           requests := setStage n Settled (requests rt),
           trace := trace rt @ [Log ''[SOURCE_FETCHER]'']\<rparr>
      else rt)"
  by (simp add: step_def split: stage.splits)

lemma step_BodyRead_OK:
  "stageOf n (requests rt) = ReadingBody OK \<Longrightarrow>
   step (BodyRead n text outcome) rt =
     rt\<lparr>fetcher := fst (notifySubscribers outcome (reqHash (requests rt ! n)) text (fetcher rt)),
        requests := setStage n Settled (requests rt),
        trace := trace rt @ fst (snd (notifySubscribers outcome (reqHash (requests rt ! n)) text (fetcher rt)))
                  @ uncaught (snd (snd (notifySubscribers outcome (reqHash (requests rt ! n)) text (fetcher rt))))\<rparr>"
  by (simp add: step_def split: prod.splits)

lemma step_BodyRead_failed:
  "stageOf n (requests rt) = ReadingBody status \<Longrightarrow> status \<noteq> OK \<Longrightarrow>
   step (BodyRead n text outcome) rt =
     rt\<lparr>requests := setStage n Settled (requests rt),
        trace := trace rt @ [Log ''[SOURCE_FETCHER:FETCH_FAILED]'']\<rparr>"
  by (simp add: step_def)

lemma step_BodyRead_other:
  "\<forall>status. stageOf n (requests rt) \<noteq> ReadingBody status \<Longrightarrow> step (BodyRead n text outcome) rt = rt"
  by (simp add: step_def split: stage.splits)

lemma step_BodyFailed:
  "step (BodyFailed n message) rt =
     (case stageOf n (requests rt) of
        ReadingBody status \<Rightarrow>
          rt\<lparr>requests := setStage n Settled (requests rt), trace := trace rt @ [Uncaught (Error message)]\<rparr>
      | _ \<Rightarrow> rt)"
  by (simp add: step_def)

lemma BodyRead_cases:
  obtains (ok) "stageOf n (requests rt) = ReadingBody OK"
  | (failed) status where "stageOf n (requests rt) = ReadingBody status" "status \<noteq> OK"
  | (other) "\<forall>status. stageOf n (requests rt) \<noteq> ReadingBody status"
  by (cases "stageOf n (requests rt)") auto

lemma step_detached:
  assumes "detached r (fetcher rt)"
  shows "detached r (fetcher (step i rt)) \<and> invocations r (trace (step i rt)) = invocations r (trace rt)"
proof (cases i)
  case (TimerFires now)
  then show ?thesis using assms
    by (auto simp: step_TimerFires detached_fetch fetch_events split: option.splits)
next
  case (Subscribe sa cb now)
  then show ?thesis using assms
    by (simp add: step_Subscribe subscribe_detached subscribe_events)
next
  case (Response n status)
  then show ?thesis using assms by (simp add: step_Response)
next
  case (Failure n message)
  then show ?thesis using assms by (simp add: step_Failure)
next
  case (BodyRead n body outcome)
  show ?thesis
  proof (cases rule: BodyRead_cases[where n=n and rt=rt])
    case ok
    then show ?thesis using assms BodyRead
      by (simp add: step_BodyRead_OK detached_notify notify_invocations_detached)
  next
    case (failed status)
    then show ?thesis using assms BodyRead by (simp add: step_BodyRead_failed)
  next
    case other
    then show ?thesis using assms BodyRead by (simp add: step_BodyRead_other)
  qed
next
  case (BodyFailed n message)
  then show ?thesis using assms by (simp add: step_BodyFailed split: stage.splits)
qed

lemma run_detached:
  "detached r (fetcher rt) \<Longrightarrow>
   detached r (fetcher (run ins rt)) \<and> invocations r (trace (run ins rt)) = invocations r (trace rt)"
proof (induction ins arbitrary: rt)
  case Nil
  then show ?case by simp
next
  case (Cons i ins)
  from step_detached[OF Cons.prems, of i]
  have d: "detached r (fetcher (step i rt))"
    and e: "invocations r (trace (step i rt)) = invocations r (trace rt)" by simp_all
  from Cons.IH[OF d] e show ?case by simp
qed


lemma notify_invocations_attached:
  "invocations r (fst (snd (notifySubscribers outcome h file s))) \<noteq> [] \<Longrightarrow> map_of (subscriptions s) h = Some r"
  by (cases "map_of (subscriptions s) h") (auto simp: notify_None notify_Some split: if_splits)

lemma notify_detaches:
  assumes "wf s" and "map_of (subscriptions s) h = Some r"
  shows "detached r (fst (notifySubscribers outcome h file s))"
proof -
  from assms(2) have "(h, r) \<in> set (subscriptions s)" by (rule map_of_SomeD)
  with assms(1) have "r < nextRef s" by (force simp: wf_def list_all_iff)
  moreover from assms have "r \<notin> snd ` set (AList.delete h (subscriptions s))"
    by (simp add: wf_def delete_detaches)
  ultimately show ?thesis using assms(2) by (simp add: notify_Some detached_def)
qed

lemma inv_step:
  assumes "inv rt"
  shows "inv (step i rt)"
proof -
  from assms have w: "wf (fetcher rt)"
    and d: "\<And>r. invocations r (trace rt) \<noteq> [] \<Longrightarrow> detached r (fetcher rt)"
    by (auto simp: inv_def)
  have w': "wf (fetcher (step i rt))"
  proof (cases i)
    case (TimerFires now)
    then show ?thesis using w by (auto simp: step_TimerFires wf_fetch split: option.splits)
  next
    case (Subscribe sa cb now)
    then show ?thesis using w by (simp add: step_Subscribe wf_subscribe)
  next
    case (Response n status)
    then show ?thesis using w by (simp add: step_Response)
  next
    case (Failure n message)
    then show ?thesis using w by (simp add: step_Failure)
  next
    case (BodyRead n body outcome)
    then show ?thesis using w
      by (cases rule: BodyRead_cases[where n=n and rt=rt])
         (simp_all add: step_BodyRead_OK step_BodyRead_failed step_BodyRead_other wf_notify)
  next
    case (BodyFailed n message)
    then show ?thesis using w by (simp add: step_BodyFailed split: stage.splits)
  qed
  have d': "detached r (fetcher (step i rt))" if n: "invocations r (trace (step i rt)) \<noteq> []" for r
  proof (cases "invocations r (trace rt) = []")
    case False
    then have "detached r (fetcher rt)" by (rule d)
    then show ?thesis using step_detached by blast
  next
    case True
    show ?thesis
    proof (cases i)
      case (TimerFires now)
      then show ?thesis using n True
        by (auto simp: step_TimerFires fetch_events split: option.splits)
    next
      case (Subscribe sa cb now)
      then show ?thesis using n True by (simp add: step_Subscribe subscribe_events)
    next
      case (Response k status)
      then show ?thesis using n True by (simp add: step_Response split: if_splits)
    next
      case (Failure k message)
      then show ?thesis using n True by (simp add: step_Failure split: if_splits)
    next
      case (BodyRead k body outcome)
      show ?thesis
      proof (cases rule: BodyRead_cases[where n=k and rt=rt])
        case ok
        with n True BodyRead
        have "invocations r (fst (snd (notifySubscribers outcome (reqHash (requests rt ! k)) body (fetcher rt)))) \<noteq> []"
          by (simp add: step_BodyRead_OK)
        then have "map_of (subscriptions (fetcher rt)) (reqHash (requests rt ! k)) = Some r"
          by (rule notify_invocations_attached)
        with w have "detached r (fst (notifySubscribers outcome (reqHash (requests rt ! k)) body (fetcher rt)))"
          by (rule notify_detaches)
        then show ?thesis using ok BodyRead by (simp add: step_BodyRead_OK)
      next
        case (failed status)
        then show ?thesis using n True BodyRead by (simp add: step_BodyRead_failed)
      next
        case other
        then show ?thesis using n True BodyRead by (simp add: step_BodyRead_other)
      qed
    next
      case (BodyFailed k message)
      then show ?thesis using n True by (simp add: step_BodyFailed split: stage.splits)
    qed
  qed
  from w' d' show ?thesis by (auto simp: inv_def)
qed

lemma inv_run: "inv rt \<Longrightarrow> inv (run ins rt)"
  by (induction ins arbitrary: rt) (simp_all add: inv_step)

lemma inv_construct: "inv (construct gws t p c)"
  by (simp add: inv_def construct_def Let_def fetch_end emptyFetcher_def wf_def dispatched_def uncaught_def)

lemma reachable_attached_silent:
  assumes "map_of (subscriptions (fetcher (run ins (construct gws t p c)))) h = Some r"
  shows "invocations r (trace (run ins (construct gws t p c))) = []"
proof (rule ccontr)
  let ?rt = "run ins (construct gws t p c)"
  assume "invocations r (trace ?rt) \<noteq> []"
  moreover have "inv ?rt" by (simp add: inv_run inv_construct)
  ultimately have "detached r (fetcher ?rt)" by (auto simp: inv_def)
  moreover from assms have "r \<in> snd ` set (subscriptions (fetcher ?rt))"
    by (force dest: map_of_SomeD)
  ultimately show False by (simp add: detached_def)
qed


lemma step_silent:
  assumes "\<forall>m body outcome. i = BodyRead m body outcome \<longrightarrow> stageOf m (requests rt) \<noteq> ReadingBody OK"
  shows "filter isInvoke (trace (step i rt)) = filter isInvoke (trace rt)"
proof (cases i)
  case (TimerFires now)
  have "filter isInvoke (events (fetch hs k now s)) = []" for hs k and s :: "'a SourceFetcher"
    by (cases rule: fetch_cases[where hs=hs and i=k and s=s and now=now])
       (simp_all add: fetch_end fetch_unsubscribed fetch_busy fetch_cleanup fetch_dispatch)
  then show ?thesis using TimerFires by (auto simp: step_TimerFires split: option.splits)
next
  case (Subscribe sa cb now)
  have "filter isInvoke (fst (snd (subscribe sa cb now s))) = []" for s :: "'a SourceFetcher"
    by (cases rule: subscribe_cases[where s=s and sa=sa])
       (simp_all add: subscribe_throws subscribe_new subscribe_old)
  then show ?thesis using Subscribe by (simp add: step_Subscribe)
next
  case (Response n status)
  then show ?thesis by (simp add: step_Response)
next
  case (Failure n message)
  then show ?thesis by (simp add: step_Failure)
next
  case (BodyRead n body outcome)
  with assms have "stageOf n (requests rt) \<noteq> ReadingBody OK" by simp
  then show ?thesis using BodyRead
    by (cases rule: BodyRead_cases[where n=n and rt=rt])
       (simp_all add: step_BodyRead_failed step_BodyRead_other)
next
  case (BodyFailed n message)
  then show ?thesis by (simp add: step_BodyFailed split: stage.splits)
qed

subsection \<open>Requests that fail\<close>









subsection \<open>Visits that clean up\<close>

lemma step_TimerFires_expired:
  assumes "pendingTimer rt = Some (d, hs, i)" and "i < length hs"
    and "map_of (subscriptions (fetcher rt)) (hs ! i) = Some r"
    and "\<not> beingProcessed (store (fetcher rt) r)"
    and "shouldCleanup (hs ! i) now (fetcher rt)"
  shows "step (TimerFires now) rt =
     rt\<lparr>fetcher := (fetcher rt)\<lparr>timestamps := (timestamps (fetcher rt))(hs ! i := None),
                subscriptions := AList.delete (hs ! i) (subscriptions (fetcher rt)),
                fileCounter := fileCounter (fetcher rt) - 1,
                subscriptionCounter := subscriptionCounter (fetcher rt)
                   - int (length (subscribers (store (fetcher rt) r)))\<rparr>,
        pendingTimer := Some (NO_PAUSE, hs, i + 1),
        requests := requests rt,
        trace := trace rt @ [Log ''[SOURCE_FETCHER:CLEANUP]'']\<rparr>"
  using assms by (simp add: step_TimerFires fetch_cleanup dispatched_def)

lemma cleanup_detaches:
  assumes "wf s" and "map_of (subscriptions s) h = Some r"
  shows "detached r (s\<lparr>timestamps := t, subscriptions := AList.delete h (subscriptions s),
                        fileCounter := f, subscriptionCounter := c\<rparr>)"
proof -
  from assms(2) have "(h, r) \<in> set (subscriptions s)" by (rule map_of_SomeD)
  with assms(1) have "r < nextRef s" by (force simp: wf_def list_all_iff)
  moreover from assms have "r \<notin> snd ` set (AList.delete h (subscriptions s))"
    by (simp add: wf_def delete_detaches)
  ultimately show ?thesis by (simp add: detached_def)
qed

section \<open>Lemmas about the revision without the in-flight flag\<close>

declare decimal.simps [simp del]

lemma notifySubscribers_rev_Some:
  "map_of (subscriptions_rev s) k = Some q \<Longrightarrow>
   notifySubscribers_rev outcome k content s =
     (s\<lparr>timestamps_rev := (timestamps_rev s)(k := None),
        subscriptions_rev := AList.delete k (subscriptions_rev s)\<rparr>,
      [Log ''[SOURCE_FETCHER:CLEANUP]'', Log ''[SOURCE_FETCHER:NOTIFY]'']
        @ map (\<lambda>cb. Invoke q cb content) (called outcome content (subscribers_rev (store_rev s q))),
      snd (forEach outcome q content (subscribers_rev (store_rev s q))))"
  using forEach_called[of outcome q content "subscribers_rev (store_rev s q)"]
  by (auto simp: notifySubscribers_rev_def cleanup_rev_def split: prod.splits)

lemma notifySubscribers_rev_None:
  "map_of (subscriptions_rev s) k = None \<Longrightarrow> notifySubscribers_rev outcome k content s = (s, [], None)"
  by (simp add: notifySubscribers_rev_def)

lemma notifySubscribers_rev_twice:
  "fst (snd (notifySubscribers_rev other k again (fst (notifySubscribers_rev outcome k content s)))) = []"
  by (cases "map_of (subscriptions_rev s) k")
     (simp_all add: notifySubscribers_rev_None notifySubscribers_rev_Some AList.delete_conv)

lemma subscribe_rev_new:
  "map_of (subscriptions_rev s) (getUniqueIdentifier sa) = None \<Longrightarrow>
   subscribe_rev sa cb now s =
     s\<lparr>subscriptions_rev := subscriptions_rev s @ [(getUniqueIdentifier sa, nextRef_rev s)],
       store_rev := (store_rev s)(nextRef_rev s := \<lparr>sourceAddress_rev = sa, subscribers_rev = [cb]\<rparr>),
       nextRef_rev := Suc (nextRef_rev s),
       timestamps_rev := (timestamps_rev s)(getUniqueIdentifier sa \<mapsto> now)\<rparr>"
  by (simp add: subscribe_rev_def Let_def)

lemma subscribe_rev_old:
  "map_of (subscriptions_rev s) (getUniqueIdentifier sa) = Some r \<Longrightarrow>
   subscribe_rev sa cb now s =
     s\<lparr>timestamps_rev := (timestamps_rev s)(getUniqueIdentifier sa \<mapsto> now),
       store_rev := (store_rev s)
         (r := (store_rev s r)\<lparr>subscribers_rev := subscribers_rev (store_rev s r) @ [cb]\<rparr>)\<rparr>"
  by (simp add: subscribe_rev_def Let_def)

section \<open>Lemmas about ChainMonitor\<close>

declare processBytecode.simps [simp del]

lemma forTransactions_no_timeout:
  "filter isTimeoutProcessBlock (fst (forTransactions gca n txs)) = []"
  by (induction txs) (auto split: sum.splits prod.splits)

lemma forTransactions_completes_iff:
  "snd (forTransactions gca n txs) = None
     \<longleftrightarrow> (\<forall>tx \<in> set txs. createsContract tx \<longrightarrow> \<not> isl (gca tx))"
  by (induction txs) (auto split: sum.splits prod.splits)

lemma processBlock_block:
  "processBlock cm gca N (Resolves (Some block)) =
     GetBlock N
       # fst (forTransactions gca (initialGetBytecodeTries cm) (transactions block))
       @ (case snd (forTransactions gca (initialGetBytecodeTries cm) (transactions block)) of
            None \<Rightarrow> [TimeoutProcessBlock (getBlockPause cm) (N + 1)]
          | Some e \<Rightarrow>
              [LogError ''[PROCESS_BLOCK:FAILED]'', TimeoutProcessBlock (getBlockPause cm) N])"
  by (simp add: processBlock_def split: prod.splits option.splits)

lemma processBlock_no_block:
  "processBlock cm gca N (Resolves None) =
     [GetBlock N, LogInfo ''[PROCESS_BLOCK]'', TimeoutProcessBlock (getBlockPause cm) N]"
  by (simp add: processBlock_def)

lemma processBlock_failed:
  "processBlock cm gca N (Rejects message) =
     [GetBlock N, LogError ''[PROCESS_BLOCK:FAILED]'', TimeoutProcessBlock (getBlockPause cm) N]"
  by (simp add: processBlock_def)

lemma processBlock_completed:
  assumes "\<forall>tx \<in> set (transactions block). createsContract tx \<longrightarrow> \<not> isl (gca tx)"
  shows "filter isTimeoutProcessBlock (processBlock cm gca N (Resolves (Some block)))
           = [TimeoutProcessBlock (getBlockPause cm) (N + 1)]"
proof -
  from assms have "snd (forTransactions gca (initialGetBytecodeTries cm) (transactions block)) = None"
    by (simp add: forTransactions_completes_iff)
  then show ?thesis by (simp add: processBlock_block forTransactions_no_timeout)
qed

lemma processBlock_threw:
  assumes "\<exists>tx \<in> set (transactions block). createsContract tx \<and> isl (gca tx)"
  shows "filter isTimeoutProcessBlock (processBlock cm gca N (Resolves (Some block)))
           = [TimeoutProcessBlock (getBlockPause cm) N]"
proof -
  from assms have "snd (forTransactions gca (initialGetBytecodeTries cm) (transactions block)) \<noteq> None"
    by (simp add: forTransactions_completes_iff)
  then show ?thesis by (auto simp: processBlock_block forTransactions_no_timeout)
qed

lemma processBlock_one_timer:
  "\<exists>M. filter isTimeoutProcessBlock (processBlock cm gca N reply)
          = [TimeoutProcessBlock (getBlockPause cm) M]
       \<and> last (processBlock cm gca N reply) = TimeoutProcessBlock (getBlockPause cm) M"
proof (cases reply)
  case (Rejects message)
  then show ?thesis by (simp add: processBlock_failed)
next
  case (Resolves found)
  show ?thesis
  proof (cases found)
    case None
    with Resolves show ?thesis by (simp add: processBlock_no_block)
  next
    case (Some block)
    with Resolves show ?thesis
      by (cases "snd (forTransactions gca (initialGetBytecodeTries cm) (transactions block))")
         (simp_all add: processBlock_block forTransactions_no_timeout)
  qed
qed

lemma processBytecode_exhausted:
  "tries \<le> 0 \<Longrightarrow> processBytecode cm lib replies k address tries = []"
  by (simp add: processBytecode.simps)

lemma processBytecode_empty_code:
  "0 < tries \<Longrightarrow> replies k = Resolves ''0x'' \<Longrightarrow>
   processBytecode cm lib replies k address tries =
     GetCode address # LogInfo ''[PROCESS_BYTECODE]''
       # TimeoutProcessBytecode (getCodeRetryPause cm) address (tries - 1)
       # processBytecode cm lib replies (k + 1) address (tries - 1)"
  by (subst processBytecode.simps) simp

lemma processBytecode_rejected:
  "0 < tries \<Longrightarrow> replies k = Rejects message \<Longrightarrow>
   processBytecode cm lib replies k address tries =
     GetCode address # LogError ''[GET_CODE]''
       # TimeoutProcessBytecode (getCodeRetryPause cm) address (tries - 1)
       # processBytecode cm lib replies (k + 1) address (tries - 1)"
  by (subst processBytecode.simps) simp

lemma processBytecode_calls:
  "length (filter isGetCode (processBytecode cm lib replies k address tries)) \<le> nat tries"
proof (induction cm lib replies k address tries rule: processBytecode.induct)
  case (1 cm lib replies k address retriesLeft)
  show ?case
  proof (cases "retriesLeft \<le> 0")
    case True
    then show ?thesis by (simp add: processBytecode_exhausted)
  next
    case False
    then have n: "nat retriesLeft = Suc (nat (retriesLeft - 1))" by simp
    from False "1.IH" show ?thesis
      by (subst processBytecode.simps)
         (auto simp: n split: promise.splits sum.splits option.splits)
  qed
qed

section \<open>Unfolding rules for the example runs\<close>

lemmas rev_eval = exampleRev_def exampleAddress_def emptyFetcher_rev_def defaultGateways_rev_def
  SimpleGateway_def subscribe_rev_def getUniqueIdentifier_def Let_def notifySubscribers_rev_def
  cleanup_rev_def shouldCleanup_rev_def fetch_rev_def AList.delete_eq STARTING_INDEX_def

lemmas fetcher_eval = construct_def defaultGateways_def SimpleGateway_def emptyFetcher_def fetch_def
      step_def subscribe_def getUniqueIdentifier_def newSubscription_def Let_def dispatched_def uncaught_def
      NO_PAUSE_def STARTING_INDEX_def shouldCleanup_def stageOf_def setStage_def OK_def notifySubscribers_def cleanup_def
      clearBeingProcessed_def AList.delete_eq outstanding_def




lemmas example_eval = exampleAddress_def exampleFetcher_def exampleDispatch_def returning_def

section \<open>Claims\<close>

text \<open>
  Claim C1, as amended. Take any state \<open>rt\<close> that the fetcher reaches from its
  constructor, and a request for the hash \<open>h\<close> whose response had status 200 and whose
  body \<open>content\<close> is now read, while \<open>h\<close> is subscribed with the subscription object
  \<open>r\<close>, whose subscribers are \<open>cbs\<close>. Then: the subscription and its timestamp are gone
  from the maps in the state in which the callbacks run, and the log line of
  \<^verbatim>\<open>cleanup\<close> precedes every callback; the callbacks called are the subscribers of
  \<open>r\<close> in order, each once, with \<open>content\<close>, up to and including the first one that
  throws: a prefix of \<open>cbs\<close>, in which only the last can have thrown, and all of \<open>cbs\<close>
  when none throws; none of them had been called before; and whatever happens later,
  the calls made for \<open>r\<close> stay exactly these, so none fires a second time. Moreover no
  step other than reading the body of a response with status 200 calls any callback:
  not a response with another status, not a transport error or timeout, not a failed
  body. The last two conjuncts are \<^verbatim>\<open>notifySubscribers\<close> of the revision without
  the in-flight flag: the same removal and the same calls, and nothing on a second
  notification.
\<close>

theorem notifySubscribers_once:
  assumes reach: "rt = run ins (construct gws t p c)"
    and ok: "stageOf n (requests rt) = ReadingBody OK"
    and h: "h = reqHash (requests rt ! n)"
    and sub: "map_of (subscriptions (fetcher rt)) h = Some r"
    and cbs: "cbs = subscribers (store (fetcher rt) r)"
    and rt': "rt' = step (BodyRead n content outcome) rt"
  shows "map_of (subscriptions (fetcher rt')) h = None
       \<and> timestamps (fetcher rt') h = None
       \<and> trace rt' = trace rt @ [Log ''[SOURCE_FETCHER:CLEANUP]'', Log ''[SOURCE_FETCHER:NOTIFY]'']
                        @ map (\<lambda>cb. Invoke r cb content) (called outcome content cbs)
                        @ uncaught (snd (forEach outcome r content cbs))
       \<and> take (length (called outcome content cbs)) cbs = called outcome content cbs
       \<and> (\<forall>cb \<in> set (butlast (called outcome content cbs)). outcome cb content = None)
       \<and> ((\<forall>cb \<in> set cbs. outcome cb content = None) \<longrightarrow> called outcome content cbs = cbs)
       \<and> invocations r (trace rt) = []
       \<and> invocations r (trace (run later rt')) = map (\<lambda>cb. (cb, content)) (called outcome content cbs)
       \<and> ((\<forall>m body any. i = BodyRead m body any \<longrightarrow> stageOf m (requests anyrt) \<noteq> ReadingBody OK)
            \<longrightarrow> filter isInvoke (trace (step i anyrt)) = filter isInvoke (trace anyrt))
       \<and> (map_of (subscriptions_rev s) k = Some q \<longrightarrow>
            map_of (subscriptions_rev (fst (notifySubscribers_rev outcome k content s))) k = None
            \<and> fst (snd (notifySubscribers_rev outcome k content s)) =
                [Log ''[SOURCE_FETCHER:CLEANUP]'', Log ''[SOURCE_FETCHER:NOTIFY]'']
                  @ map (\<lambda>cb. Invoke q cb content)
                      (called outcome content (subscribers_rev (store_rev s q))))
       \<and> fst (snd (notifySubscribers_rev other k again
                     (fst (notifySubscribers_rev outcome k content s)))) = []"
proof -
  have i: "inv rt" by (simp add: reach inv_run inv_construct)
  from ok have st: "step (BodyRead n content outcome) rt =
     rt\<lparr>fetcher := fst (notifySubscribers outcome h content (fetcher rt)),
        requests := setStage n Settled (requests rt),
        trace := trace rt @ fst (snd (notifySubscribers outcome h content (fetcher rt)))
                  @ uncaught (snd (snd (notifySubscribers outcome h content (fetcher rt))))\<rparr>"
    unfolding h by (rule step_BodyRead_OK)
  have 1: "map_of (subscriptions (fetcher rt')) h = None"
    by (simp add: rt' st notify_Some[OF sub] AList.delete_conv)
  have 2: "timestamps (fetcher rt') h = None"
    by (simp add: rt' st notify_Some[OF sub])
  have 3: "trace rt' = trace rt @ [Log ''[SOURCE_FETCHER:CLEANUP]'', Log ''[SOURCE_FETCHER:NOTIFY]'']
                        @ map (\<lambda>cb. Invoke r cb content) (called outcome content cbs)
                        @ uncaught (snd (forEach outcome r content cbs))"
    by (simp add: rt' st notify_Some[OF sub] cbs)
  have 4: "invocations r (trace rt) = []"
    using sub unfolding reach by (rule reachable_attached_silent)
  from i have "wf (fetcher rt)" by (simp add: inv_def)
  then have "detached r (fst (notifySubscribers outcome h content (fetcher rt)))"
    using sub by (rule notify_detaches)
  then have "detached r (fetcher rt')" by (simp add: rt' st)
  then have "invocations r (trace (run later rt')) = invocations r (trace rt')"
    using run_detached by blast
  with 3 4 have 5: "invocations r (trace (run later rt'))
      = map (\<lambda>cb. (cb, content)) (called outcome content cbs)"
    by simp
  have 6: "map_of (subscriptions_rev s) k = Some q \<longrightarrow>
            map_of (subscriptions_rev (fst (notifySubscribers_rev outcome k content s))) k = None
            \<and> fst (snd (notifySubscribers_rev outcome k content s)) =
                [Log ''[SOURCE_FETCHER:CLEANUP]'', Log ''[SOURCE_FETCHER:NOTIFY]'']
                  @ map (\<lambda>cb. Invoke q cb content)
                      (called outcome content (subscribers_rev (store_rev s q)))"
    by (simp add: notifySubscribers_rev_Some AList.delete_conv)
  from 1 2 3 4 5 6 step_silent[of i anyrt]
    notifySubscribers_rev_twice[of other k again outcome content s]
    called_prefix[of outcome content cbs] called_all[of cbs outcome content]
    called_returned[of outcome content cbs]
  show ?thesis by blast
qed

theorem notifySubscribers_once_witness:
  "run (exampleDispatch @ [Response 0 200]) exampleFetcher
     = run (exampleDispatch @ [Response 0 200])
         (construct (defaultGateways ''https://ipfs.infura.io:5001/api/v0/cat?arg='') 300000 1000 1800000)
   \<and> stageOf 0 (requests (run (exampleDispatch @ [Response 0 200]) exampleFetcher)) = ReadingBody OK
   \<and> ''ipfs:QmHash'' = reqHash (requests (run (exampleDispatch @ [Response 0 200]) exampleFetcher) ! 0)
   \<and> map_of (subscriptions (fetcher (run (exampleDispatch @ [Response 0 200]) exampleFetcher))) ''ipfs:QmHash'' = Some 0
   \<and> [7] = subscribers (store (fetcher (run (exampleDispatch @ [Response 0 200]) exampleFetcher)) 0)
   \<and> map_of (subscriptions (fetcher (step (BodyRead 0 ''abc'' returning)
        (run (exampleDispatch @ [Response 0 200]) exampleFetcher)))) ''ipfs:QmHash'' = None
   \<and> trace (step (BodyRead 0 ''abc'' returning) (run (exampleDispatch @ [Response 0 200]) exampleFetcher))
      = [Log ''[SOURCE_FETCHER:NEW_SUBSCRIPTION]'', Log ''[SOURCE_FETCHER:CLEANUP]'',
         Log ''[SOURCE_FETCHER:NOTIFY]'', Invoke 0 7 ''abc'']
   \<and> invocations 0 (trace (run [Subscribe exampleAddress 8 1004, TimerFires 1005, Response 1 200,
          BodyRead 1 ''abc'' returning]
        (step (BodyRead 0 ''abc'' returning) (run (exampleDispatch @ [Response 0 200]) exampleFetcher))))
      = [(7, ''abc'')]
   \<and> filter isInvoke (trace (step (Failure 0 ''timeout'') (run exampleDispatch exampleFetcher)))
       = filter isInvoke (trace (run exampleDispatch exampleFetcher))
   \<and> map_of (subscriptions_rev exampleRev) ''ipfs:QmHash'' = Some 0
   \<and> fst (snd (notifySubscribers_rev returning ''ipfs:QmHash'' ''abc'' exampleRev))
       = [Log ''[SOURCE_FETCHER:CLEANUP]'', Log ''[SOURCE_FETCHER:NOTIFY]'', Invoke 0 7 ''abc'']
   \<and> fst (snd (notifySubscribers_rev returning ''ipfs:QmHash'' ''def''
            (fst (notifySubscribers_rev returning ''ipfs:QmHash'' ''abc'' exampleRev)))) = []"
proof -
  let ?W = "run (exampleDispatch @ [Response 0 200]) exampleFetcher"
  have h0: "?W = run (exampleDispatch @ [Response 0 200])
         (construct (defaultGateways ''https://ipfs.infura.io:5001/api/v0/cat?arg='') 300000 1000 1800000)"
    by (simp only: exampleFetcher_def)
  have h1: "stageOf 0 (requests ?W) = ReadingBody OK"
    by (simp add: example_eval fetcher_eval)
  have h2: "''ipfs:QmHash'' = reqHash (requests ?W ! 0)"
    by (simp add: example_eval fetcher_eval)
  have h3: "map_of (subscriptions (fetcher ?W)) ''ipfs:QmHash'' = Some 0"
    by (simp add: example_eval fetcher_eval)
  have h4: "[7] = subscribers (store (fetcher ?W) 0)"
    by (simp add: example_eval fetcher_eval)
  have tr: "trace ?W = [Log ''[SOURCE_FETCHER:NEW_SUBSCRIPTION]'']"
    by (simp add: example_eval fetcher_eval)
  have ne: "\<forall>m body any. Failure 0 ''timeout'' \<noteq> BodyRead m body any" by simp
  have hr: "map_of (subscriptions_rev exampleRev) ''ipfs:QmHash'' = Some 0"
    by (simp add: rev_eval)
  have cr: "subscribers_rev (store_rev exampleRev 0) = [7]"
    by (simp add: rev_eval)
  note inst = notifySubscribers_once[OF h0 h1 h2 h3 h4 refl, where content="''abc''" and i="Failure 0 ''timeout''"
      and anyrt="run exampleDispatch exampleFetcher" and outcome=returning and other=returning
      and later="[Subscribe exampleAddress 8 1004, TimerFires 1005, Response 1 200, BodyRead 1 ''abc'' returning]"
      and s=exampleRev and k="''ipfs:QmHash''" and q=0 and again="''def''"]
  from inst have c1: "map_of (subscriptions (fetcher (step (BodyRead 0 ''abc'' returning) ?W))) ''ipfs:QmHash'' = None"
    by blast
  from inst have "trace (step (BodyRead 0 ''abc'' returning) ?W)
      = trace ?W @ [Log ''[SOURCE_FETCHER:CLEANUP]'', Log ''[SOURCE_FETCHER:NOTIFY]'']
          @ map (\<lambda>cb. Invoke 0 cb ''abc'') (called returning ''abc'' [7])
          @ uncaught (snd (forEach returning 0 ''abc'' [7]))"
    by blast
  then have c2: "trace (step (BodyRead 0 ''abc'' returning) ?W)
      = [Log ''[SOURCE_FETCHER:NEW_SUBSCRIPTION]'', Log ''[SOURCE_FETCHER:CLEANUP]'',
         Log ''[SOURCE_FETCHER:NOTIFY]'', Invoke 0 7 ''abc'']"
    by (simp add: tr returning_def uncaught_def)
  from inst have "invocations 0 (trace (run [Subscribe exampleAddress 8 1004, TimerFires 1005, Response 1 200,
          BodyRead 1 ''abc'' returning] (step (BodyRead 0 ''abc'' returning) ?W)))
      = map (\<lambda>cb. (cb, ''abc'')) (called returning ''abc'' [7])"
    by blast
  then have c3: "invocations 0 (trace (run [Subscribe exampleAddress 8 1004, TimerFires 1005, Response 1 200,
          BodyRead 1 ''abc'' returning] (step (BodyRead 0 ''abc'' returning) ?W))) = [(7, ''abc'')]"
    by (simp add: returning_def)
  from inst ne have c4: "filter isInvoke (trace (step (Failure 0 ''timeout'') (run exampleDispatch exampleFetcher)))
       = filter isInvoke (trace (run exampleDispatch exampleFetcher))"
    by blast
  from inst hr have "fst (snd (notifySubscribers_rev returning ''ipfs:QmHash'' ''abc'' exampleRev))
       = [Log ''[SOURCE_FETCHER:CLEANUP]'', Log ''[SOURCE_FETCHER:NOTIFY]'']
           @ map (\<lambda>cb. Invoke 0 cb ''abc'') (called returning ''abc'' (subscribers_rev (store_rev exampleRev 0)))"
    by blast
  then have c5: "fst (snd (notifySubscribers_rev returning ''ipfs:QmHash'' ''abc'' exampleRev))
       = [Log ''[SOURCE_FETCHER:CLEANUP]'', Log ''[SOURCE_FETCHER:NOTIFY]'', Invoke 0 7 ''abc'']"
    by (simp add: cr returning_def)
  from inst have c6: "fst (snd (notifySubscribers_rev returning ''ipfs:QmHash'' ''def''
            (fst (notifySubscribers_rev returning ''ipfs:QmHash'' ''abc'' exampleRev)))) = []"
    by blast
  from h0 h1 h2 h3 h4 c1 c2 c3 c4 hr c5 c6 show ?thesis by blast
qed

text \<open>
  Claim C1 as stated fails when a callback throws. Two callbacks, 7 and then 8, are
  registered for one hash; the hash is fetched with status 200 and the body is read;
  the subscription is removed, callback 7 is called and throws, and callback 8 is
  never called: not in this notification, and not later, since the subscription is
  gone.
\<close>

theorem notifySubscribers_stops_at_throw:
  "subscribers (store (fetcher (run exampleTwoSubscribers exampleFetcher)) 0) = [7, 8]
   \<and> stageOf 0 (requests (run exampleTwoSubscribers exampleFetcher)) = ReadingBody OK
   \<and> trace (run (exampleTwoSubscribers @ [BodyRead 0 ''abc'' throwing]) exampleFetcher)
      = [Log ''[SOURCE_FETCHER:NEW_SUBSCRIPTION]'', Log ''[SOURCE_FETCHER:NEW_SUBSCRIPTION]'',
         Log ''[SOURCE_FETCHER:CLEANUP]'', Log ''[SOURCE_FETCHER:NOTIFY]'', Invoke 0 7 ''abc'',
         Uncaught (Error ''Unexpected token'')]
   \<and> map_of (subscriptions (fetcher (run (exampleTwoSubscribers @ [BodyRead 0 ''abc'' throwing])
        exampleFetcher))) ''ipfs:QmHash'' = None
   \<and> invocations 0 (trace (run (exampleTwoSubscribers @ [BodyRead 0 ''abc'' throwing,
        TimerFires 1003, TimerFires 1004, TimerFires 1005]) exampleFetcher)) = [(7, ''abc'')]"
  by (simp add: exampleTwoSubscribers_def throwing_def example_eval fetcher_eval)

text \<open>
  Claim C2, on \<^verbatim>\<open>fetch\<close> of the revision without the in-flight flag. After the
  first subscription a round starts over the keys of the map; its first call looks up
  the key \<open>0\<close> instead of the hash, does not find it, and returns without setting a
  timer, dispatching a request or throwing: the loop has stopped, although the hash is
  subscribed. The same happens when the hash at the index is not subscribed any more:
  the hashes after it are never visited. (The class in \<^verbatim>\<open>source-fetcher.ts\<close>
  tests the hash, goes on to the next index without pause and sets a timer on every
  path: lemmas \<open>fetch_unsubscribed\<close> and \<open>fetch_total\<close>.)
\<close>

theorem fetch_rev_stops:
  "timer_rev (fetch_rev [] 0 1 exampleRev) = Some (1000, [''ipfs:QmHash''], 0)
   \<and> fetch_rev [''ipfs:QmHash''] 0 1001 exampleRev
       = \<lparr>state_rev = exampleRev, events_rev = [], timer_rev = None, request_rev = None,
          threw_rev = None\<rparr>
   \<and> map_of (subscriptions_rev exampleRev) ''ipfs:QmGone'' = None
   \<and> fetch_rev [''ipfs:QmGone'', ''ipfs:QmHash''] 0 1001 exampleRev
       = \<lparr>state_rev = exampleRev, events_rev = [], timer_rev = None, request_rev = None,
          threw_rev = None\<rparr>"
proof -
  have k: "map fst (subscriptions_rev exampleRev) = [''ipfs:QmHash'']"
    by (simp add: rev_eval)
  have p: "fetchPause_rev exampleRev = 1000"
    by (simp add: rev_eval)
  have d: "decimal 0 = ''0''"
    by (simp add: decimal.simps)
  have m: "map_of (subscriptions_rev exampleRev) ''ipfs:QmGone'' = None"
    by (simp add: rev_eval)
  show ?thesis using m by (simp add: fetch_rev_def k d p STARTING_INDEX_def)
qed

text \<open>
  Claim C3. One subscriber, one hash, the default periods. The first request is
  dispatched; its response arrives with status 200, which clears the in-flight flag
  while the body is still being read; the next visit of the hash, one pause later,
  finds the flag clear and dispatches a second request: two requests for the hash are
  outstanding. When the body of the first has been read the subscribers are notified
  and the subscription is removed; a new subscriber comes for the same hash and gets a
  new subscription object, whose flag is clear, so the next visit dispatches a third
  request while the second is still waiting for its response. (A visit while the flag
  of the subscribed object is set is skipped without a request: lemma \<open>fetch_busy\<close>.)
\<close>

theorem fetch_overlapping_requests:
  "requests (run (exampleDispatch @ [Response 0 200, TimerFires 1003, TimerFires 1004]) exampleFetcher)
     = [\<lparr>reqUrl = ''https://ipfs.infura.io:5001/api/v0/cat?arg=QmHash'', reqHash = ''ipfs:QmHash'',
         reqSubscription = 0, reqStage = ReadingBody 200\<rparr>,
        \<lparr>reqUrl = ''https://ipfs.infura.io:5001/api/v0/cat?arg=QmHash'', reqHash = ''ipfs:QmHash'',
         reqSubscription = 0, reqStage = AwaitingResponse\<rparr>]
   \<and> length (outstanding ''ipfs:QmHash''
        (run (exampleDispatch @ [Response 0 200, TimerFires 1003, TimerFires 1004]) exampleFetcher)) = 2
   \<and> requests (run (exampleDispatch @ [Response 0 200, TimerFires 1003, TimerFires 1004, BodyRead 0 ''abc'' returning,
          Subscribe exampleAddress 8 1500, TimerFires 2005, TimerFires 2006]) exampleFetcher)
     = [\<lparr>reqUrl = ''https://ipfs.infura.io:5001/api/v0/cat?arg=QmHash'', reqHash = ''ipfs:QmHash'',
         reqSubscription = 0, reqStage = Settled\<rparr>,
        \<lparr>reqUrl = ''https://ipfs.infura.io:5001/api/v0/cat?arg=QmHash'', reqHash = ''ipfs:QmHash'',
         reqSubscription = 0, reqStage = AwaitingResponse\<rparr>,
        \<lparr>reqUrl = ''https://ipfs.infura.io:5001/api/v0/cat?arg=QmHash'', reqHash = ''ipfs:QmHash'',
         reqSubscription = 1, reqStage = AwaitingResponse\<rparr>]"
proof -
  have r: "requests (run (exampleDispatch @ [Response 0 200, TimerFires 1003, TimerFires 1004]) exampleFetcher)
     = [\<lparr>reqUrl = ''https://ipfs.infura.io:5001/api/v0/cat?arg=QmHash'', reqHash = ''ipfs:QmHash'',
         reqSubscription = 0, reqStage = ReadingBody 200\<rparr>,
        \<lparr>reqUrl = ''https://ipfs.infura.io:5001/api/v0/cat?arg=QmHash'', reqHash = ''ipfs:QmHash'',
         reqSubscription = 0, reqStage = AwaitingResponse\<rparr>]"
    by (simp add: example_eval fetcher_eval)
  have q: "requests (run (exampleDispatch @ [Response 0 200, TimerFires 1003, TimerFires 1004, BodyRead 0 ''abc'' returning,
          Subscribe exampleAddress 8 1500, TimerFires 2005, TimerFires 2006]) exampleFetcher)
     = [\<lparr>reqUrl = ''https://ipfs.infura.io:5001/api/v0/cat?arg=QmHash'', reqHash = ''ipfs:QmHash'',
         reqSubscription = 0, reqStage = Settled\<rparr>,
        \<lparr>reqUrl = ''https://ipfs.infura.io:5001/api/v0/cat?arg=QmHash'', reqHash = ''ipfs:QmHash'',
         reqSubscription = 0, reqStage = AwaitingResponse\<rparr>,
        \<lparr>reqUrl = ''https://ipfs.infura.io:5001/api/v0/cat?arg=QmHash'', reqHash = ''ipfs:QmHash'',
         reqSubscription = 1, reqStage = AwaitingResponse\<rparr>]"
    by (simp add: example_eval fetcher_eval)
  have "length (outstanding ''ipfs:QmHash''
        (run (exampleDispatch @ [Response 0 200, TimerFires 1003, TimerFires 1004]) exampleFetcher)) = 2"
    unfolding outstanding_def r by simp
  with r q show ?thesis by blast
qed

text \<open>
  Claim C4, as amended. Take any state \<open>rt\<close> that the fetcher reaches from its
  constructor, whose timer is about to visit the hash \<open>h\<close>, subscribed with the
  subscription object \<open>r\<close>; let no request be in flight for it (\<open>beingProcessed\<close> is
  false) and let its timestamp be older than \<^verbatim>\<open>cleanupTime\<close> at the visit. Then the
  visit deletes the subscription and its timestamp, logs the cleanup and calls nothing,
  goes on to the next index without pause, and whatever happens later no callback of
  \<open>r\<close> is ever called: none was before, none is after.
\<close>

theorem fetch_cleans_expired:
  assumes reach: "rt = run ins (construct gws t p c)"
    and timer: "pendingTimer rt = Some (d, hs, i)"
    and index: "i < length hs"
    and h: "h = hs ! i"
    and sub: "map_of (subscriptions (fetcher rt)) h = Some r"
    and idle: "\<not> beingProcessed (store (fetcher rt) r)"
    and old: "shouldCleanup h now (fetcher rt)"
    and rt': "rt' = step (TimerFires now) rt"
  shows "map_of (subscriptions (fetcher rt')) h = None
       \<and> timestamps (fetcher rt') h = None
       \<and> trace rt' = trace rt @ [Log ''[SOURCE_FETCHER:CLEANUP]'']
       \<and> pendingTimer rt' = Some (NO_PAUSE, hs, i + 1)
       \<and> invocations r (trace rt) = []
       \<and> invocations r (trace (run later rt')) = []"
proof -
  note st = step_TimerFires_expired[OF timer index sub[unfolded h] idle old[unfolded h], folded h]
  have 1: "map_of (subscriptions (fetcher rt')) h = None"
    and 2: "timestamps (fetcher rt') h = None"
    and 3: "trace rt' = trace rt @ [Log ''[SOURCE_FETCHER:CLEANUP]'']"
    and 4: "pendingTimer rt' = Some (NO_PAUSE, hs, i + 1)"
    by (simp_all add: rt' st AList.delete_conv)
  have 5: "invocations r (trace rt) = []"
    using sub unfolding reach by (rule reachable_attached_silent)
  have "inv rt" by (simp add: reach inv_run inv_construct)
  then have "wf (fetcher rt)" by (simp add: inv_def)
  then have "detached r (fetcher rt')"
    unfolding rt' st using sub by (simp add: cleanup_detaches)
  then have "invocations r (trace (run later rt')) = invocations r (trace rt')"
    using run_detached by blast
  with 3 5 have 6: "invocations r (trace (run later rt')) = []" by simp
  from 1 2 3 4 5 6 show ?thesis by blast
qed

theorem fetch_cleans_expired_witness:
  "run exampleExpiry exampleShortCleanup
     = run exampleExpiry (construct (defaultGateways ''https://ipfs.infura.io:5001/api/v0/cat?arg='') 300000 1000 1000)
   \<and> pendingTimer (run exampleExpiry exampleShortCleanup) = Some (0, [''ipfs:QmHash''], 0)
   \<and> (0::nat) < length [''ipfs:QmHash'']
   \<and> ''ipfs:QmHash'' = [''ipfs:QmHash''] ! 0
   \<and> map_of (subscriptions (fetcher (run exampleExpiry exampleShortCleanup))) ''ipfs:QmHash'' = Some 0
   \<and> \<not> beingProcessed (store (fetcher (run exampleExpiry exampleShortCleanup)) 0)
   \<and> shouldCleanup ''ipfs:QmHash'' 1004 (fetcher (run exampleExpiry exampleShortCleanup))
   \<and> map_of (subscriptions (fetcher (step (TimerFires 1004) (run exampleExpiry exampleShortCleanup)))) ''ipfs:QmHash'' = None
   \<and> timestamps (fetcher (step (TimerFires 1004) (run exampleExpiry exampleShortCleanup))) ''ipfs:QmHash'' = None
   \<and> trace (step (TimerFires 1004) (run exampleExpiry exampleShortCleanup))
       = [Log ''[SOURCE_FETCHER:NEW_SUBSCRIPTION]'', Log ''[SOURCE_FETCHER]'', Log ''[SOURCE_FETCHER:CLEANUP]'']
   \<and> invocations 0 (trace (run [Subscribe exampleAddress 8 1005, TimerFires 1006, TimerFires 1007, Response 1 200, BodyRead 1 ''abc'' returning]
        (step (TimerFires 1004) (run exampleExpiry exampleShortCleanup)))) = []"
proof -
  let ?rt = "run exampleExpiry exampleShortCleanup"
  have a: "?rt = run exampleExpiry (construct (defaultGateways ''https://ipfs.infura.io:5001/api/v0/cat?arg='') 300000 1000 1000)"
    by (simp only: exampleShortCleanup_def)
  have b: "pendingTimer ?rt = Some (0, [''ipfs:QmHash''], 0)"
    by (simp add: exampleExpiry_def exampleShortCleanup_def example_eval fetcher_eval)
  have c: "(0::nat) < length [''ipfs:QmHash'']" by simp
  have d: "''ipfs:QmHash'' = [''ipfs:QmHash''] ! 0" by simp
  have e: "map_of (subscriptions (fetcher ?rt)) ''ipfs:QmHash'' = Some 0"
    by (simp add: exampleExpiry_def exampleShortCleanup_def example_eval fetcher_eval)
  have f: "\<not> beingProcessed (store (fetcher ?rt) 0)"
    by (simp add: exampleExpiry_def exampleShortCleanup_def example_eval fetcher_eval)
  have g: "shouldCleanup ''ipfs:QmHash'' 1004 (fetcher ?rt)"
    by (simp add: exampleExpiry_def exampleShortCleanup_def example_eval fetcher_eval)
  have tr: "trace ?rt = [Log ''[SOURCE_FETCHER:NEW_SUBSCRIPTION]'', Log ''[SOURCE_FETCHER]'']"
    by (simp add: exampleExpiry_def exampleShortCleanup_def example_eval fetcher_eval)
  note inst = fetch_cleans_expired[OF a b c d e f g refl,
      where later="[Subscribe exampleAddress 8 1005, TimerFires 1006, TimerFires 1007, Response 1 200, BodyRead 1 ''abc'' returning]",
      unfolded tr]
  from inst a b c d e f g show ?thesis by simp
qed

text \<open>
  Claim C4 as stated fails when a request is in flight. With \<^verbatim>\<open>cleanupTime\<close> set to
  one second: the hash is subscribed at time 0 and its request dispatched at time 2; at
  time 1004 the loop visits the hash again, its timestamp is older than
  \<^verbatim>\<open>cleanupTime\<close>, and the visit skips it because the request is still in flight.
  The subscription and its timestamp stay in the maps, and when the response arrives
  with status 200 the callback is called.
\<close>

theorem fetch_keeps_expired_in_flight:
  "pendingTimer (run (exampleDispatch @ [TimerFires 1003]) exampleShortCleanup) = Some (0, [''ipfs:QmHash''], 0)
   \<and> shouldCleanup ''ipfs:QmHash'' 1004 (fetcher (run (exampleDispatch @ [TimerFires 1003]) exampleShortCleanup))
   \<and> map_of (subscriptions (fetcher (run (exampleDispatch @ [TimerFires 1003, TimerFires 1004]) exampleShortCleanup)))
        ''ipfs:QmHash'' = Some 0
   \<and> timestamps (fetcher (run (exampleDispatch @ [TimerFires 1003, TimerFires 1004]) exampleShortCleanup))
        ''ipfs:QmHash'' = Some 0
   \<and> invocations 0 (trace (run (exampleDispatch @ [TimerFires 1003, TimerFires 1004, Response 0 200, BodyRead 0 ''abc'' returning])
        exampleShortCleanup)) = [(7, ''abc'')]"
  by (simp add: exampleShortCleanup_def example_eval fetcher_eval)

text \<open>
  Claim C5. When a gateway \<open>g\<close> works with the origin of the address, \<^verbatim>\<open>subscribe\<close>
  does not throw and sets the timestamp of the unique identifier \<open>h\<close> to the current
  time. If \<open>h\<close> was not subscribed, one entry for \<open>h\<close> is appended to the map, with a new
  subscription object whose only subscriber is the callback; if it was, the map is as
  before and the object it holds for \<open>h\<close> is as before but for the callback appended to
  its subscribers. Keys that were distinct stay distinct, and in every state the fetcher
  reaches from its constructor the keys of the map are distinct: never two
  subscriptions for one identifier. The second half says the same of \<^verbatim>\<open>subscribe\<close>
  of the revision without the in-flight flag, which looks for no gateway.
\<close>

theorem subscribe_upserts:
  assumes gw: "findGateway (gateways s) sa = Inr g"
    and h: "h = getUniqueIdentifier sa"
    and s': "subscribe sa cb now s = (s', evs, e)"
    and v': "v' = subscribe_rev sa cb now v"
  shows "e = None
       \<and> timestamps s' h = Some now
       \<and> (case map_of (subscriptions s) h of
             None \<Rightarrow>
               subscriptions s' = subscriptions s @ [(h, nextRef s)]
               \<and> store s' (nextRef s) =
                   \<lparr>sourceAddress = sa, fetchUrl = createUrl g (fileId sa),
                    beingProcessed = False, subscribers = [cb]\<rparr>
           | Some r \<Rightarrow>
               subscriptions s' = subscriptions s
               \<and> store s' r = (store s r)\<lparr>subscribers := subscribers (store s r) @ [cb]\<rparr>)
       \<and> (distinct (map fst (subscriptions s)) \<longrightarrow> distinct (map fst (subscriptions s')))
       \<and> distinct (map fst (subscriptions (fetcher (run ins (construct gws t p c)))))
       \<and> timestamps_rev v' h = Some now
       \<and> (case map_of (subscriptions_rev v) h of
             None \<Rightarrow>
               subscriptions_rev v' = subscriptions_rev v @ [(h, nextRef_rev v)]
               \<and> store_rev v' (nextRef_rev v) = \<lparr>sourceAddress_rev = sa, subscribers_rev = [cb]\<rparr>
           | Some r \<Rightarrow>
               subscriptions_rev v' = subscriptions_rev v
               \<and> store_rev v' r =
                   (store_rev v r)\<lparr>subscribers_rev := subscribers_rev (store_rev v r) @ [cb]\<rparr>)
       \<and> (distinct (map fst (subscriptions_rev v)) \<longrightarrow> distinct (map fst (subscriptions_rev v')))"
proof -
  have main: "e = None
       \<and> timestamps s' h = Some now
       \<and> (case map_of (subscriptions s) h of
             None \<Rightarrow>
               subscriptions s' = subscriptions s @ [(h, nextRef s)]
               \<and> store s' (nextRef s) =
                   \<lparr>sourceAddress = sa, fetchUrl = createUrl g (fileId sa),
                    beingProcessed = False, subscribers = [cb]\<rparr>
           | Some r \<Rightarrow>
               subscriptions s' = subscriptions s
               \<and> store s' r = (store s r)\<lparr>subscribers := subscribers (store s r) @ [cb]\<rparr>)
       \<and> (distinct (map fst (subscriptions s)) \<longrightarrow> distinct (map fst (subscriptions s')))"
  proof (cases "map_of (subscriptions s) h")
    case None
    then have "h \<notin> fst ` set (subscriptions s)" by (rule map_of_None_fst)
    then show ?thesis using None s' subscribe_new[OF gw, of cb now] unfolding h by auto
  next
    case (Some r)
    then show ?thesis using s' subscribe_old[OF gw, of r cb now] unfolding h by auto
  qed
  have "inv (run ins (construct gws t p c))" by (simp add: inv_run inv_construct)
  then have reach: "distinct (map fst (subscriptions (fetcher (run ins (construct gws t p c)))))"
    by (simp add: inv_def wf_def)
  have rev: "timestamps_rev v' h = Some now
       \<and> (case map_of (subscriptions_rev v) h of
             None \<Rightarrow>
               subscriptions_rev v' = subscriptions_rev v @ [(h, nextRef_rev v)]
               \<and> store_rev v' (nextRef_rev v) = \<lparr>sourceAddress_rev = sa, subscribers_rev = [cb]\<rparr>
           | Some r \<Rightarrow>
               subscriptions_rev v' = subscriptions_rev v
               \<and> store_rev v' r =
                   (store_rev v r)\<lparr>subscribers_rev := subscribers_rev (store_rev v r) @ [cb]\<rparr>)
       \<and> (distinct (map fst (subscriptions_rev v)) \<longrightarrow> distinct (map fst (subscriptions_rev v')))"
  proof (cases "map_of (subscriptions_rev v) h")
    case None
    then have "h \<notin> fst ` set (subscriptions_rev v)" by (rule map_of_None_fst)
    then show ?thesis using None subscribe_rev_new[of v sa cb now] unfolding h v' by auto
  next
    case (Some r)
    then show ?thesis using subscribe_rev_old[of v sa r cb now] unfolding h v' by auto
  qed
  from main reach rev show ?thesis by blast
qed

theorem subscribe_upserts_witness:
  "findGateway (gateways exampleSubscribed) exampleAddress
     = Inr (SimpleGateway [''ipfs''] ''https://ipfs.infura.io:5001/api/v0/cat?arg='')
   \<and> ''ipfs:QmHash'' = getUniqueIdentifier exampleAddress
   \<and> map_of (subscriptions exampleSubscribed) ''ipfs:QmHash'' = Some 0
   \<and> subscribers (store exampleSubscribed 0) = [7]
   \<and> snd (snd (subscribe exampleAddress 8 9 exampleSubscribed)) = None
   \<and> timestamps (fst (subscribe exampleAddress 8 9 exampleSubscribed)) ''ipfs:QmHash'' = Some 9
   \<and> subscriptions (fst (subscribe exampleAddress 8 9 exampleSubscribed)) = [(''ipfs:QmHash'', 0)]
   \<and> subscribers (store (fst (subscribe exampleAddress 8 9 exampleSubscribed)) 0) = [7, 8]
   \<and> map_of (subscriptions_rev exampleRev) ''ipfs:QmHash'' = Some 0
   \<and> subscribers_rev (store_rev exampleRev 0) = [7]
   \<and> timestamps_rev (subscribe_rev exampleAddress 8 9 exampleRev) ''ipfs:QmHash'' = Some 9
   \<and> subscriptions_rev (subscribe_rev exampleAddress 8 9 exampleRev) = [(''ipfs:QmHash'', 0)]
   \<and> subscribers_rev (store_rev (subscribe_rev exampleAddress 8 9 exampleRev) 0) = [7, 8]"
proof -
  have gw: "findGateway (gateways exampleSubscribed) exampleAddress
     = Inr (SimpleGateway [''ipfs''] ''https://ipfs.infura.io:5001/api/v0/cat?arg='')"
    by (simp add: exampleSubscribed_def exampleEmpty_def example_eval fetcher_eval)
  have h: "''ipfs:QmHash'' = getUniqueIdentifier exampleAddress"
    by (simp add: example_eval fetcher_eval)
  have m: "map_of (subscriptions exampleSubscribed) ''ipfs:QmHash'' = Some 0"
    by (simp add: exampleSubscribed_def exampleEmpty_def example_eval fetcher_eval)
  have l: "subscriptions exampleSubscribed = [(''ipfs:QmHash'', 0)]"
    by (simp add: exampleSubscribed_def exampleEmpty_def example_eval fetcher_eval)
  have c: "subscribers (store exampleSubscribed 0) = [7]"
    by (simp add: exampleSubscribed_def exampleEmpty_def example_eval fetcher_eval)
  have mr: "map_of (subscriptions_rev exampleRev) ''ipfs:QmHash'' = Some 0"
    by (simp add: rev_eval)
  have lr: "subscriptions_rev exampleRev = [(''ipfs:QmHash'', 0)]"
    by (simp add: rev_eval)
  have cr: "subscribers_rev (store_rev exampleRev 0) = [7]"
    by (simp add: rev_eval)
  have s': "subscribe exampleAddress 8 9 exampleSubscribed
       = (fst (subscribe exampleAddress 8 9 exampleSubscribed),
          fst (snd (subscribe exampleAddress 8 9 exampleSubscribed)),
          snd (snd (subscribe exampleAddress 8 9 exampleSubscribed)))"
    by simp
  note inst = subscribe_upserts[OF gw h s' refl, where v=exampleRev and ins="[]" and gws="[]" and t=0 and p=0 and c=0,
      unfolded m mr option.case]
  from inst have x: "snd (snd (subscribe exampleAddress 8 9 exampleSubscribed)) = None
       \<and> timestamps (fst (subscribe exampleAddress 8 9 exampleSubscribed)) ''ipfs:QmHash'' = Some 9
       \<and> subscriptions (fst (subscribe exampleAddress 8 9 exampleSubscribed)) = [(''ipfs:QmHash'', 0)]
       \<and> timestamps_rev (subscribe_rev exampleAddress 8 9 exampleRev) ''ipfs:QmHash'' = Some 9
       \<and> subscriptions_rev (subscribe_rev exampleAddress 8 9 exampleRev) = [(''ipfs:QmHash'', 0)]"
    unfolding l lr by blast
  from inst have "store (fst (subscribe exampleAddress 8 9 exampleSubscribed)) 0
           = (store exampleSubscribed 0)\<lparr>subscribers := subscribers (store exampleSubscribed 0) @ [8]\<rparr>"
    by blast
  then have y: "subscribers (store (fst (subscribe exampleAddress 8 9 exampleSubscribed)) 0) = [7, 8]"
    by (simp add: c)
  from inst have "store_rev (subscribe_rev exampleAddress 8 9 exampleRev) 0
           = (store_rev exampleRev 0)\<lparr>subscribers_rev := subscribers_rev (store_rev exampleRev 0) @ [8]\<rparr>"
    by blast
  then have z: "subscribers_rev (store_rev (subscribe_rev exampleAddress 8 9 exampleRev) 0) = [7, 8]"
    by (simp add: cr)
  from x y z gw h m c mr cr show ?thesis by blast
qed




text \<open>
  Claim C7, as amended. Whatever the monitor, the address function and the block
  number \<open>N\<close>: one iteration of \<^verbatim>\<open>processBlock\<close> sets exactly one timer for the next
  iteration, with the delay \<^verbatim>\<open>getBlockPause\<close>, and it is the last thing the
  iteration does. The timer carries \<open>N + 1\<close> when the RPC returned a block and
  \<^verbatim>\<open>getContractAddress\<close> threw on none of its contract creations; it carries \<open>N\<close>
  when the RPC returned no block, when the call failed, and when
  \<^verbatim>\<open>getContractAddress\<close> threw on a contract creation of the block.
\<close>

theorem processBlock_reschedules:
  "(\<exists>M. filter isTimeoutProcessBlock (processBlock cm gca N reply)
           = [TimeoutProcessBlock (getBlockPause cm) M]
        \<and> last (processBlock cm gca N reply) = TimeoutProcessBlock (getBlockPause cm) M)
   \<and> ((\<forall>tx \<in> set (transactions block). createsContract tx \<longrightarrow> \<not> isl (gca tx)) \<longrightarrow>
        filter isTimeoutProcessBlock (processBlock cm gca N (Resolves (Some block)))
          = [TimeoutProcessBlock (getBlockPause cm) (N + 1)])
   \<and> ((\<exists>tx \<in> set (transactions block). createsContract tx \<and> isl (gca tx)) \<longrightarrow>
        filter isTimeoutProcessBlock (processBlock cm gca N (Resolves (Some block)))
          = [TimeoutProcessBlock (getBlockPause cm) N])
   \<and> filter isTimeoutProcessBlock (processBlock cm gca N (Resolves None))
     = [TimeoutProcessBlock (getBlockPause cm) N]
   \<and> filter isTimeoutProcessBlock (processBlock cm gca N (Rejects message))
     = [TimeoutProcessBlock (getBlockPause cm) N]"
  using processBlock_one_timer[of cm gca N reply] processBlock_completed[of block gca cm N]
    processBlock_threw[of block gca cm N]
  by (simp add: processBlock_no_block processBlock_failed)

theorem processBlock_reschedules_witness:
  "map (\<lambda>tx. createsContract tx \<longrightarrow> \<not> isl (exampleGetContractAddress tx)) (transactions exampleBlock)
     = [True, True]
   \<and> processBlock exampleMonitor exampleGetContractAddress 7 (Resolves (Some exampleBlock))
     = [GetBlock 7, CallProcessBytecode ''0xaF5077d30350ebC938BBc653045ba91200000000'' 3,
        TimeoutProcessBlock 2000 8]
   \<and> filter isTimeoutProcessBlock
        (processBlock exampleMonitor exampleGetContractAddress 7 (Resolves (Some exampleBlock)))
     = [TimeoutProcessBlock 2000 8]
   \<and> map (\<lambda>tx. createsContract tx \<and> isl (exampleGetContractAddress tx)) (transactions exampleBadBlock)
     = [False, True, False]
   \<and> filter isTimeoutProcessBlock
        (processBlock exampleMonitor exampleGetContractAddress 7 (Resolves (Some exampleBadBlock)))
     = [TimeoutProcessBlock 2000 7]
   \<and> filter isTimeoutProcessBlock
        (processBlock exampleMonitor exampleGetContractAddress 7 (Resolves None))
     = [TimeoutProcessBlock 2000 7]
   \<and> filter isTimeoutProcessBlock
        (processBlock exampleMonitor exampleGetContractAddress 7 (Rejects ''timeout''))
     = [TimeoutProcessBlock 2000 7]"
proof -
  have p: "getBlockPause exampleMonitor = 2000"
    by (simp add: exampleMonitor_def)
  have g: "map (\<lambda>tx. createsContract tx \<longrightarrow> \<not> isl (exampleGetContractAddress tx)) (transactions exampleBlock)
     = [True, True]"
    by (simp add: exampleBlock_def createsContract_def exampleGetContractAddress_def)
  then have good: "\<forall>tx \<in> set (transactions exampleBlock). createsContract tx \<longrightarrow> \<not> isl (exampleGetContractAddress tx)"
    by (simp add: exampleBlock_def)
  have b: "map (\<lambda>tx. createsContract tx \<and> isl (exampleGetContractAddress tx)) (transactions exampleBadBlock)
     = [False, True, False]"
    by (simp add: exampleBadBlock_def createsContract_def exampleGetContractAddress_def)
  then have bad: "\<exists>tx \<in> set (transactions exampleBadBlock). createsContract tx \<and> isl (exampleGetContractAddress tx)"
    by (simp add: exampleBadBlock_def)
  have e: "processBlock exampleMonitor exampleGetContractAddress 7 (Resolves (Some exampleBlock))
     = [GetBlock 7, CallProcessBytecode ''0xaF5077d30350ebC938BBc653045ba91200000000'' 3,
        TimeoutProcessBlock 2000 8]"
    by (simp add: processBlock_def exampleMonitor_def exampleBlock_def createsContract_def
        exampleGetContractAddress_def)
  from processBlock_reschedules[of exampleMonitor exampleGetContractAddress 7 "Resolves None"
      exampleBlock "''timeout''"] good
  have 1: "filter isTimeoutProcessBlock
        (processBlock exampleMonitor exampleGetContractAddress 7 (Resolves (Some exampleBlock)))
     = [TimeoutProcessBlock 2000 8]"
    and 2: "filter isTimeoutProcessBlock
        (processBlock exampleMonitor exampleGetContractAddress 7 (Resolves None))
     = [TimeoutProcessBlock 2000 7]"
    and 3: "filter isTimeoutProcessBlock
        (processBlock exampleMonitor exampleGetContractAddress 7 (Rejects ''timeout''))
     = [TimeoutProcessBlock 2000 7]"
    by (simp_all add: p)
  from processBlock_reschedules[of exampleMonitor exampleGetContractAddress 7 "Resolves None"
      exampleBadBlock "''timeout''"] bad
  have 4: "filter isTimeoutProcessBlock
        (processBlock exampleMonitor exampleGetContractAddress 7 (Resolves (Some exampleBadBlock)))
     = [TimeoutProcessBlock 2000 7]"
    by (simp add: p)
  from g e 1 b 4 2 3 show ?thesis by blast
qed

text \<open>
  Claim C7 as stated fails when the loop over the transactions throws. The RPC returns a
  block with three contract creations, the second without a sender:
  \<^verbatim>\<open>processBytecode\<close> is called for the first, \<^verbatim>\<open>getContractAddress\<close> throws
  on the second, the third is not looked at, the increment is skipped, \<^verbatim>\<open>catch\<close>
  logs, and the timer is set for the same block 7, not for block 8.
\<close>

theorem processBlock_retries_block_after_throw:
  "processBlock exampleMonitor exampleGetContractAddress 7 (Resolves (Some exampleBadBlock))
     = [GetBlock 7, CallProcessBytecode ''0xaF5077d30350ebC938BBc653045ba91200000000'' 3,
        LogError ''[PROCESS_BLOCK:FAILED]'', TimeoutProcessBlock 2000 7]"
  by (simp add: processBlock_def exampleMonitor_def exampleBadBlock_def createsContract_def
      exampleGetContractAddress_def)

text \<open>
  Claim C8. Whatever the RPC answers: \<^verbatim>\<open>processBytecode\<close> with \<open>tries\<close> tries left
  returns (the function is total), and with all the calls its timers make it issues at
  most \<open>tries\<close> calls of \<^verbatim>\<open>getCode\<close> (none when \<open>tries\<close> is zero or negative). With zero
  or fewer tries it does nothing at all: no RPC call, no timer, no error. With tries
  left, an answer \<open>0x\<close> and a rejected call each set one timer for the same address with
  the counter one lower, which is all the next call has.
\<close>

theorem processBytecode_bounded:
  "int (length (filter isGetCode (processBytecode cm lib replies k address tries))) \<le> max 0 tries
   \<and> (tries \<le> 0 \<longrightarrow> processBytecode cm lib replies k address tries = [])
   \<and> (0 < tries \<and> replies k = Resolves ''0x'' \<longrightarrow>
        processBytecode cm lib replies k address tries =
          GetCode address # LogInfo ''[PROCESS_BYTECODE]''
            # TimeoutProcessBytecode (getCodeRetryPause cm) address (tries - 1)
            # processBytecode cm lib replies (k + 1) address (tries - 1))
   \<and> (0 < tries \<and> replies k = Rejects message \<longrightarrow>
        processBytecode cm lib replies k address tries =
          GetCode address # LogError ''[GET_CODE]''
            # TimeoutProcessBytecode (getCodeRetryPause cm) address (tries - 1)
            # processBytecode cm lib replies (k + 1) address (tries - 1))"
proof -
  have "int (length (filter isGetCode (processBytecode cm lib replies k address tries))) \<le> max 0 tries"
    using processBytecode_calls[of cm lib replies k address tries] by simp
  then show ?thesis
    by (simp add: processBytecode_exhausted processBytecode_empty_code processBytecode_rejected)
qed

theorem processBytecode_bounded_witness:
  "processBytecode exampleMonitor exampleLibrary exampleReplies 2 ''0xaa'' (initialGetBytecodeTries exampleMonitor)
     = [GetCode ''0xaa'', LogInfo ''[PROCESS_BYTECODE]'', TimeoutProcessBytecode 2000 ''0xaa'' 2,
        GetCode ''0xaa'', LogError ''[GET_CODE]'', TimeoutProcessBytecode 2000 ''0xaa'' 1,
        GetCode ''0xaa'', LogInfo ''[PROCESS_BYTECODE]'', TimeoutProcessBytecode 2000 ''0xaa'' 0]
   \<and> int (length (filter isGetCode
        (processBytecode exampleMonitor exampleLibrary exampleReplies 2 ''0xaa''
           (initialGetBytecodeTries exampleMonitor)))) \<le> 3
   \<and> processBytecode exampleMonitor exampleLibrary exampleReplies 5 ''0xaa'' 0 = []"
proof -
  have t: "initialGetBytecodeTries exampleMonitor = 3" and p: "getCodeRetryPause exampleMonitor = 2000"
    by (simp_all add: exampleMonitor_def)
  have r: "exampleReplies 2 = Resolves ''0x''" "exampleReplies 3 = Rejects ''timeout''"
    "exampleReplies 4 = Resolves ''0x''"
    by (simp_all add: exampleReplies_def)
  note b0 = processBytecode_bounded[of exampleMonitor exampleLibrary exampleReplies 2 "''0xaa''" 3 "''timeout''"]
  note b1 = processBytecode_bounded[of exampleMonitor exampleLibrary exampleReplies 3 "''0xaa''" 2 "''timeout''"]
  note b2 = processBytecode_bounded[of exampleMonitor exampleLibrary exampleReplies 4 "''0xaa''" 1 "''timeout''"]
  note b3 = processBytecode_bounded[of exampleMonitor exampleLibrary exampleReplies 5 "''0xaa''" 0 "''timeout''"]
  from b3 have e3: "processBytecode exampleMonitor exampleLibrary exampleReplies 5 ''0xaa'' 0 = []" by simp
  from b2 have e2: "processBytecode exampleMonitor exampleLibrary exampleReplies 4 ''0xaa'' 1
     = [GetCode ''0xaa'', LogInfo ''[PROCESS_BYTECODE]'', TimeoutProcessBytecode 2000 ''0xaa'' 0]"
    by (simp add: e3 p r)
  from b1 have e1: "processBytecode exampleMonitor exampleLibrary exampleReplies 3 ''0xaa'' 2
     = [GetCode ''0xaa'', LogError ''[GET_CODE]'', TimeoutProcessBytecode 2000 ''0xaa'' 1,
        GetCode ''0xaa'', LogInfo ''[PROCESS_BYTECODE]'', TimeoutProcessBytecode 2000 ''0xaa'' 0]"
    by (simp add: e2 p r)
  from b0 have e0: "processBytecode exampleMonitor exampleLibrary exampleReplies 2 ''0xaa'' 3
     = [GetCode ''0xaa'', LogInfo ''[PROCESS_BYTECODE]'', TimeoutProcessBytecode 2000 ''0xaa'' 2,
        GetCode ''0xaa'', LogError ''[GET_CODE]'', TimeoutProcessBytecode 2000 ''0xaa'' 1,
        GetCode ''0xaa'', LogInfo ''[PROCESS_BYTECODE]'', TimeoutProcessBytecode 2000 ''0xaa'' 0]"
    by (simp add: e1 p r)
  from b0 e0 e3 show ?thesis by (simp add: t)
qed

text \<open>
  Claim C10. When no registered gateway works with the origin of the address,
  \<^verbatim>\<open>subscribe\<close> throws \<open>Gateway not found for <origin>\<close> and the state it leaves
  is the state it found: the subscription map, the timestamp map, the store and the
  counters are untouched, and nothing is logged.
\<close>

theorem subscribe_without_gateway:
  assumes "\<forall>g \<in> set (gateways s). \<not> worksWith g (origin sa)"
  shows "subscribe sa cb now s = (s, [], Some (Error (''Gateway not found for '' @ origin sa)))"
  using findGateway_none[OF assms] by (simp add: subscribe_throws)

theorem subscribe_without_gateway_witness:
  "map (\<lambda>g. worksWith g (origin \<lparr>origin = ''http'', fileId = ''x''\<rparr>)) (gateways exampleEmpty)
       = [False, False]
   \<and> subscribe \<lparr>origin = ''http'', fileId = ''x''\<rparr> 7 5 exampleEmpty
       = (exampleEmpty, [], Some (Error ''Gateway not found for http''))"
proof -
  have h: "\<forall>g \<in> set (gateways exampleEmpty). \<not> worksWith g (origin \<lparr>origin = ''http'', fileId = ''x''\<rparr>)"
    by (simp add: exampleEmpty_def emptyFetcher_def defaultGateways_def SimpleGateway_def)
  have "map (\<lambda>g. worksWith g (origin \<lparr>origin = ''http'', fileId = ''x''\<rparr>)) (gateways exampleEmpty)
       = [False, False]"
    by (simp add: exampleEmpty_def emptyFetcher_def defaultGateways_def SimpleGateway_def)
  with subscribe_without_gateway[OF h, of 7 5] show ?thesis by simp
qed

end
